theory Spec2Isabelle
  imports Complex_Main "HOL-Library.Multiset"
begin

section \<open>Cluster-count selection and marker styling of \<open>plot_funs.py\<close>\<close>

text \<open>
  The development embeds the decision logic of \<open>plot_funs.py\<close>: the choice of the optimal
  number of clusters inside \<open>plot_best_k\<close> (with its nested \<open>plot_subplot\<close>), and the
  colour and icon choice of \<open>plot_map\<close> and \<open>plot_map_gradient_color\<close>. The calls into the
  plotting and mapping libraries enter the model only where they can end the call: the
  length check of \<open>ax.plot\<close>. Styling and saving are not part of the model.
  Scores are Python floats; they are modelled as reals, which is exact for the comparisons
  made by \<open>max\<close>, \<open>min\<close> and \<open>list.index\<close> on numbers other than NaN. Where the
  code computes with floats, in \<open>get_gradient_color\<close>, every operation is followed by
  the rounding of double precision.
\<close>

subsection \<open>Errors\<close>

text \<open>
  \<open>ValueError\<close> is what Python's \<open>max\<close> and \<open>min\<close> raise on an empty sequence and what
  \<open>list.index\<close> raises for a missing element; \<open>IndexError\<close> is raised by a positional
  read out of range, \<open>TypeError\<close> by \<open>range\<close> on a bound that is no integer.
  \<open>ValueError\<close> is also what the plotting library raises when the two sequences given
  to \<open>ax.plot\<close> differ in length, what the imaging library raises for a colour name it
  does not know, and what \<open>int\<close> raises on a NaN. \<open>InsufficientDataError\<close> is the error
  the specification names for elbow detection on fewer than three points.
\<close>

datatype error = ValueError | IndexError | TypeError | InsufficientDataError

subsection \<open>The built-ins used at line 208: \<open>max\<close>, \<open>min\<close>, \<open>list.index\<close>\<close>

text \<open>
  \<open>max\<close> starts from the first item and replaces the running maximum only by an item
  that is strictly greater; \<open>min\<close> is symmetric with strictly smaller.
\<close>

fun py_max_from :: "real \<Rightarrow> real list \<Rightarrow> real" where
  "py_max_from m [] = m"
| "py_max_from m (x # xs) = py_max_from (if x > m then x else m) xs"

fun py_min_from :: "real \<Rightarrow> real list \<Rightarrow> real" where
  "py_min_from m [] = m"
| "py_min_from m (x # xs) = py_min_from (if x < m then x else m) xs"

definition py_max :: "real list \<Rightarrow> error + real" where
  "py_max scores = (case scores of [] \<Rightarrow> Inl ValueError | x # rest \<Rightarrow> Inr (py_max_from x rest))"

definition py_min :: "real list \<Rightarrow> error + real" where
  "py_min scores = (case scores of [] \<Rightarrow> Inl ValueError | x # rest \<Rightarrow> Inr (py_min_from x rest))"

text \<open>\<open>scores.index(v)\<close>: the position of the first item equal to \<open>v\<close>.\<close>

fun py_index :: "real list \<Rightarrow> real \<Rightarrow> error + nat" where
  "py_index [] v = Inl ValueError"
| "py_index (x # xs) v =
     (if x = v then Inr 0
      else (case py_index xs v of Inl e \<Rightarrow> Inl e | Inr i \<Rightarrow> Inr (Suc i)))"

text \<open>A positional read (\<open>scores[i]\<close>, \<open>.iloc[i]\<close>) with a non-negative index.\<close>

definition getitem :: "'a list \<Rightarrow> nat \<Rightarrow> error + 'a" where
  "getitem xs i = (if i < length xs then Inr (xs ! i) else Inl IndexError)"

subsection \<open>\<open>plot_subplot\<close>: the selected index, lines 205 to 211\<close>

text \<open>
  \<open>find_elbow\<close> comes from the module \<open>modelling_funs\<close>; here it is a parameter of the
  functions that call it.
\<close>

definition optimal_k_index ::
  "(real list \<Rightarrow> error + nat) \<Rightarrow> real list \<Rightarrow> bool \<Rightarrow> bool \<Rightarrow> error + nat" where
  "optimal_k_index find_elbow scores is_higher_better is_elbow =
     (if is_elbow then find_elbow scores
      else if is_higher_better
        then (case py_max scores of Inl e \<Rightarrow> Inl e | Inr m \<Rightarrow> py_index scores m)
        else (case py_min scores of Inl e \<Rightarrow> Inl e | Inr m \<Rightarrow> py_index scores m))"

subsection \<open>The score table and \<open>plot_best_k\<close>\<close>

text \<open>
  \<open>df_scores\<close> is a data frame with one row per candidate number of clusters. A row holds
  the five columns the function reads; the data frame is the list of its rows in
  positional order.
\<close>

record row =
  Number_of_Clusters :: int
  Silhouette_Score :: real
  Distortion :: real
  Davies_Bouldin :: real
  Calinski_Harabasz :: real

text \<open>
  Lines 193 and 194, \<open>np.min\<close> and \<open>np.max\<close> of the \<open>Number_of_Clusters\<close> column,
  taken before the sort. On an empty column pandas answers NaN, which is no integer:
  \<open>None\<close>.
\<close>

definition column_min :: "int list \<Rightarrow> int option" where
  "column_min ks = (case ks of [] \<Rightarrow> None | k # rest \<Rightarrow> Some (fold min rest k))"

definition column_max :: "int list \<Rightarrow> int option" where
  "column_max ks = (case ks of [] \<Rightarrow> None | k # rest \<Rightarrow> Some (fold max rest k))"

text \<open>
  Line 195, \<open>df_scores.sort_values(by='Number_of_Clusters', inplace=True)\<close>: the rows are
  reordered by ascending \<open>Number_of_Clusters\<close>, in the caller's data frame. For a table
  whose keys are pairwise different the sorted table is determined by the keys, and it is the
  one below. Rows with equal keys are left by pandas' default algorithm (quicksort, which
  is not stable) in an order of its own, which the sort below (it keeps them in their
  original order) does not reproduce. Every statement about \<open>plot_best_k\<close> is therefore
  either made for tables with pairwise different keys or does not depend on the order of
  rows with equal keys.
\<close>

definition sort_values :: "row list \<Rightarrow> row list" where
  "sort_values df_scores = sort_key Number_of_Clusters df_scores"

text \<open>
  Line 212, \<open>ax.plot(range(min_x, max_x+1), scores, ...)\<close>: \<open>range\<close> raises
  \<open>TypeError\<close> on a bound that is no integer, and the plotting library raises
  \<open>ValueError\<close> unless the range, of \<open>max_x + 1 - min_x\<close> items (none if that is
  negative), is as long as \<open>scores\<close>.
\<close>

definition ax_plot :: "int option \<Rightarrow> int option \<Rightarrow> real list \<Rightarrow> error + unit" where
  "ax_plot min_x max_x scores =
     (case (min_x, max_x) of
        (Some lo, Some hi) \<Rightarrow>
          if nat (hi + 1 - lo) = length scores then Inr () else Inl ValueError
      | _ \<Rightarrow> Inl TypeError)"

text \<open>
  \<open>plot_subplot\<close>, lines 204 to 222, a closure over \<open>df_scores\<close>, \<open>min_x\<close> and
  \<open>max_x\<close>. The selection (205 to 208) is followed by the two reads of lines 210 and 211
  and by \<open>ax.plot\<close> (212); only then is the panel marked (213 to 222). The model returns
  the pair \<open>(optimal_k, score)\<close> that the vertical line and the annotation show.
\<close>

definition plot_subplot ::
  "(real list \<Rightarrow> error + nat) \<Rightarrow> row list \<Rightarrow> int option \<Rightarrow> int option \<Rightarrow>
   real list \<Rightarrow> bool \<Rightarrow> bool \<Rightarrow> error + (int \<times> real)" where
  "plot_subplot find_elbow df_scores min_x max_x scores is_higher_better is_elbow =
     (case optimal_k_index find_elbow scores is_higher_better is_elbow of
        Inl e \<Rightarrow> Inl e
      | Inr i \<Rightarrow>
          (case getitem (map Number_of_Clusters df_scores) i of
             Inl e \<Rightarrow> Inl e
           | Inr optimal_k \<Rightarrow>
               (case getitem scores i of
                  Inl e \<Rightarrow> Inl e
                | Inr score \<Rightarrow>
                    (case ax_plot min_x max_x scores of
                       Inl e \<Rightarrow> Inl e
                     | Inr u \<Rightarrow> Inr (optimal_k, score)))))"

text \<open>The four \<open>(optimal_k, score)\<close> pairs, one per panel \<open>ax1\<close> to \<open>ax4\<close>.\<close>

record best_k =
  silhouette :: "int \<times> real"
  distortion :: "int \<times> real"
  davies_bouldin :: "int \<times> real"
  calinski_harabasz :: "int \<times> real"

text \<open>
  What a call of \<open>plot_best_k\<close> leaves behind: the caller's data frame, the pairs marked
  on the panels that were completed (in the order \<open>ax1\<close> to \<open>ax4\<close>), and the outcome,
  which is the first error raised or the four pairs. Lines 240 to 243, which save and show
  the figure, are reached only after the fourth panel.
\<close>

record call_state =
  table :: "row list"
  panels :: "(int \<times> real) list"
  outcome :: "error + best_k"

text \<open>
  \<open>plot_best_k\<close>, lines 192 to 238. The four calls of \<open>plot_subplot\<close> run in the order
  of the source, with the source's arguments (\<open>is_higher_better\<close> defaults to true,
  \<open>is_elbow\<close> to false); an error in one of them ends the call.
\<close>

definition plot_best_k :: "(real list \<Rightarrow> error + nat) \<Rightarrow> row list \<Rightarrow> call_state" where
  "plot_best_k find_elbow df_scores0 =
     (let min_x = column_min (map Number_of_Clusters df_scores0);
          max_x = column_max (map Number_of_Clusters df_scores0);
          df_scores = sort_values df_scores0;
          ss_scores = map Silhouette_Score df_scores;
          distortions = map Distortion df_scores;
          db_scores = map Davies_Bouldin df_scores;
          ch_scores = map Calinski_Harabasz df_scores
      in (case plot_subplot find_elbow df_scores min_x max_x ss_scores True False of
            Inl e \<Rightarrow> \<lparr>table = df_scores, panels = [], outcome = Inl e\<rparr>
          | Inr p1 \<Rightarrow>
         (case plot_subplot find_elbow df_scores min_x max_x distortions False True of
            Inl e \<Rightarrow> \<lparr>table = df_scores, panels = [p1], outcome = Inl e\<rparr>
          | Inr p2 \<Rightarrow>
         (case plot_subplot find_elbow df_scores min_x max_x db_scores False False of
            Inl e \<Rightarrow> \<lparr>table = df_scores, panels = [p1, p2], outcome = Inl e\<rparr>
          | Inr p3 \<Rightarrow>
         (case plot_subplot find_elbow df_scores min_x max_x ch_scores True False of
            Inl e \<Rightarrow> \<lparr>table = df_scores, panels = [p1, p2, p3], outcome = Inl e\<rparr>
          | Inr p4 \<Rightarrow>
              \<lparr>table = df_scores, panels = [p1, p2, p3, p4],
               outcome = Inr \<lparr>silhouette = p1, distortion = p2,
                              davies_bouldin = p3, calinski_harabasz = p4\<rparr>\<rparr>)))))"

subsection \<open>Elbow detection\<close>

text \<open>
  \<open>find_elbow\<close> is defined in the module \<open>modelling_funs\<close>, which is not among the
  sources; \<open>plot_funs.py\<close> only calls it. The definitions of this subsection follow the
  specification instead: treat the sequence as points \<open>(i, values[i])\<close>, draw the line
  through the first and the last point, compute the perpendicular distance of every interior
  point to that line, and return the first interior index with the maximum distance; fewer
  than three points are an \<open>InsufficientDataError\<close>.
\<close>

text \<open>Modelled from the spec: the point \<open>(i, values[i])\<close> of \<open>find_elbow\<close>.\<close>

definition point :: "real list \<Rightarrow> nat \<Rightarrow> real \<times> real" where
  "point scores i = (real i, scores ! i)"

text \<open>
  Modelled from the spec: the perpendicular distance of \<open>find_elbow\<close>, of the point
  \<open>p\<close> from the line through \<open>a\<close> and \<open>b\<close>, in the usual closed form (twice the area
  of the triangle over the length of its base).
\<close>

definition perpendicular_distance :: "real \<times> real \<Rightarrow> real \<times> real \<Rightarrow> real \<times> real \<Rightarrow> real" where
  "perpendicular_distance p a b =
     \<bar>(fst b - fst a) * (snd a - snd p) - (fst a - fst p) * (snd b - snd a)\<bar>
       / sqrt ((fst b - fst a)\<^sup>2 + (snd b - snd a)\<^sup>2)"

text \<open>
  Modelled from the spec: the foot of the perpendicular from \<open>p\<close> on the line through
  \<open>a\<close> and \<open>b\<close>; it serves to state that \<open>perpendicular_distance\<close> is the distance
  the specification means.
\<close>

definition foot :: "real \<times> real \<Rightarrow> real \<times> real \<Rightarrow> real \<times> real \<Rightarrow> real \<times> real" where
  "foot p a b =
     (let t = ((fst p - fst a) * (fst b - fst a) + (snd p - snd a) * (snd b - snd a))
                / ((fst b - fst a)\<^sup>2 + (snd b - snd a)\<^sup>2)
      in (fst a + t * (fst b - fst a), snd a + t * (snd b - snd a)))"

text \<open>
  Modelled from the spec: the distance of the point of index \<open>i\<close> from the line through
  the first and the last point, in \<open>find_elbow\<close>.
\<close>

definition line_distance :: "real list \<Rightarrow> nat \<Rightarrow> real" where
  "line_distance scores i =
     perpendicular_distance (point scores i) (point scores 0) (point scores (length scores - 1))"

text \<open>
  Modelled from the spec: the distances of the interior points of \<open>find_elbow\<close>, those
  of index 1 to \<open>length - 2\<close>, in sequence order.
\<close>

definition interior_distances :: "real list \<Rightarrow> real list" where
  "interior_distances scores = map (line_distance scores) [1..<length scores - 1]"

text \<open>
  Modelled from the spec: \<open>find_elbow\<close> of the module \<open>modelling_funs\<close>. Fewer than
  three points are an \<open>InsufficientDataError\<close>; otherwise the result is the index of the
  first interior point at the maximum distance.
\<close>

definition find_elbow :: "real list \<Rightarrow> error + nat" where
  "find_elbow scores =
     (if length scores < 3 then Inl InsufficientDataError
      else (case py_max (interior_distances scores) of
              Inl e \<Rightarrow> Inl e
            | Inr d \<Rightarrow>
                (case py_index (interior_distances scores) d of
                   Inl e \<Rightarrow> Inl e
                 | Inr j \<Rightarrow> Inr (Suc j))))"

subsection \<open>Marker colour and icon of \<open>plot_map\<close>, lines 258 to 271\<close>

definition plot_map_colors :: "string list" where
  "plot_map_colors =
     [''red'', ''blue'', ''green'', ''purple'', ''orange'', ''darkred'', ''lightred'',
      ''beige'', ''darkblue'', ''darkgreen'']"

definition plot_map_icons :: "string list" where
  "plot_map_icons =
     [''info-sign'', ''cloud'', ''star'', ''heart'', ''flag'', ''euro'', ''ok'',
      ''remove-sign'', ''flash'', ''question-sign'']"

text \<open>
  Cluster labels are Python integers. \<open>%\<close> with a positive modulus and \<open>//\<close> are the
  flooring operations, as \<open>mod\<close> and \<open>div\<close> on \<open>int\<close> are; the index is never negative.
  \<open>cluster // len(colors) % len(icons)\<close> groups from the left.
\<close>

definition plot_map_color :: "int \<Rightarrow> error + string" where
  "plot_map_color cluster =
     getitem plot_map_colors (nat (cluster mod int (length plot_map_colors)))"

definition plot_map_icon_type :: "int \<Rightarrow> error + string" where
  "plot_map_icon_type cluster =
     getitem plot_map_icons
       (nat (cluster div int (length plot_map_colors) mod int (length plot_map_icons)))"

subsection \<open>Base colour of \<open>plot_map_gradient_color\<close>, lines 348 to 360\<close>

text \<open>
  In the source no comma separates \<open>'lightred'\<close> from \<open>'lightgreen'\<close> on the next line;
  Python joins adjacent string literals, which is the append below.
\<close>

definition gradient_colors :: "string list" where
  "gradient_colors =
     [''red'', ''blue'', ''green'', ''purple'', ''orange'', ''pink'', ''gray'', ''darkred'',
      ''white'', ''beige'',
      ''darkblue'', ''darkgreen'', ''cadetblue'', ''darkpurple'', ''lightblue'',
      ''lightred'' @
      ''lightgreen'', ''black'', ''lightgray'']"

definition base_color :: "int \<Rightarrow> error + string" where
  "base_color cluster =
     getitem gradient_colors (nat (cluster mod int (length gradient_colors)))"

subsection \<open>Double-precision arithmetic\<close>

text \<open>
  A Python float is an IEEE 754 binary64 number. A finite double is modelled as the real
  number it denotes, and an arithmetic operation on doubles as the exact operation followed
  by \<open>fl\<close>, the rounding to the nearest double with ties going to the even significand.
  \<open>rne\<close> rounds a real to the nearest integer, ties to even; \<open>expo\<close> is the binary
  exponent of a number, not below \<open>-1022\<close>, the exponent of the subnormal numbers;
  \<open>ulp\<close> is the spacing of the doubles at that exponent, for a significand of 53 bits.
  Overflow to infinity is not modelled: no intermediate value of \<open>get_gradient_color\<close>
  with \<open>0 <= value <= max_value\<close> exceeds 511.
\<close>

definition rne :: "real \<Rightarrow> int" where
  "rne y = (let n = \<lfloor>y\<rfloor>; r = y - of_int n
            in if r < 1 / 2 then n else if 1 / 2 < r then n + 1
               else if even n then n else n + 1)"

definition expo :: "real \<Rightarrow> int" where
  "expo x = max \<lfloor>log 2 \<bar>x\<bar>\<rfloor> (- 1022)"

definition ulp :: "real \<Rightarrow> real" where
  "ulp x = 2 powi (expo x - 52)"

definition fl :: "real \<Rightarrow> real" where
  "fl x = (if x = 0 then 0 else of_int (rne (x / ulp x)) * ulp x)"

text \<open>\<open>int(x)\<close> on a float truncates towards zero.\<close>

definition py_int :: "real \<Rightarrow> int" where
  "py_int x = (if 0 \<le> x then \<lfloor>x\<rfloor> else \<lceil>x\<rceil>)"

subsection \<open>\<open>get_gradient_color\<close>, lines 301 to 306\<close>

text \<open>
  One component of the generator expression of line 305,
  \<open>int(white_rgb[i] * (1 - factor) + base_rgb[i] * factor)\<close>, with \<open>white_rgb[i] = 255\<close>:
  the integers 255 and \<open>base_rgb[i]\<close> are converted to floats exactly, and the
  subtraction, the two products and the sum are each rounded.
\<close>

definition gradient_channel :: "int \<Rightarrow> real \<Rightarrow> int" where
  "gradient_channel base factor =
     py_int (fl (fl (255 * fl (1 - factor)) + fl (of_int base * factor)))"

text \<open>
  \<open>ImageColor.getcolor(base_color, "RGB")\<close> belongs to the imaging library and is a
  parameter: it gives the RGB triple of a colour name, or raises \<open>ValueError\<close> for a name
  it does not know. The argument \<open>base_color\<close> of the source is \<open>color_name\<close> here.
  \<open>value\<close> and \<open>max_value\<close> are the numbers passed in (floats, or integers of magnitude
  up to \<open>2 ^ 53\<close>, which convert to floats exactly), and \<open>value / max_value\<close> is the
  rounded quotient. The caller, \<open>plot_map_gradient_color\<close>, passes numpy scalars: a zero
  divisor then gives an infinity or a NaN (with a warning), the sum of line 305 is a NaN,
  and \<open>int\<close> raises \<open>ValueError\<close>.
\<close>

definition get_gradient_color ::
  "(string \<Rightarrow> error + int \<times> int \<times> int) \<Rightarrow> string \<Rightarrow> real \<Rightarrow> real \<Rightarrow>
   error + int \<times> int \<times> int" where
  "get_gradient_color getcolor color_name value max_value =
     (case getcolor color_name of
        Inl e \<Rightarrow> Inl e
      | Inr base_rgb \<Rightarrow>
          if max_value = 0 then Inl ValueError
          else (let factor = fl (value / max_value)
                in (case base_rgb of
                      (r, g, b) \<Rightarrow>
                        Inr (gradient_channel r factor, gradient_channel g factor,
                             gradient_channel b factor))))"

subsection \<open>Three score tables used as concrete inputs\<close>

text \<open>
  A table of five rows for \<open>k\<close> from 2 to 6 with pairwise distinct scores in every column,
  a table of three rows whose \<open>Number_of_Clusters\<close> column reads 3, 2, 4, and a table of
  three rows for \<open>k\<close> = 2, 4, 6.
\<close>

definition five_row_table :: "row list" where
  "five_row_table =
     [\<lparr>Number_of_Clusters = 2, Silhouette_Score = 0.30, Distortion = 100,
       Davies_Bouldin = 1.5, Calinski_Harabasz = 50\<rparr>,
      \<lparr>Number_of_Clusters = 3, Silhouette_Score = 0.45, Distortion = 60,
       Davies_Bouldin = 0.8, Calinski_Harabasz = 80\<rparr>,
      \<lparr>Number_of_Clusters = 4, Silhouette_Score = 0.55, Distortion = 30,
       Davies_Bouldin = 0.9, Calinski_Harabasz = 110\<rparr>,
      \<lparr>Number_of_Clusters = 5, Silhouette_Score = 0.50, Distortion = 25,
       Davies_Bouldin = 1.0, Calinski_Harabasz = 120\<rparr>,
      \<lparr>Number_of_Clusters = 6, Silhouette_Score = 0.40, Distortion = 22,
       Davies_Bouldin = 1.1, Calinski_Harabasz = 90\<rparr>]"

definition unordered_table :: "row list" where
  "unordered_table =
     [\<lparr>Number_of_Clusters = 3, Silhouette_Score = 0.5, Distortion = 40,
       Davies_Bouldin = 0.9, Calinski_Harabasz = 60\<rparr>,
      \<lparr>Number_of_Clusters = 2, Silhouette_Score = 0.3, Distortion = 90,
       Davies_Bouldin = 1.4, Calinski_Harabasz = 50\<rparr>,
      \<lparr>Number_of_Clusters = 4, Silhouette_Score = 0.4, Distortion = 30,
       Davies_Bouldin = 1.1, Calinski_Harabasz = 70\<rparr>]"

definition gap_table :: "row list" where
  "gap_table =
     [\<lparr>Number_of_Clusters = 2, Silhouette_Score = 0.3, Distortion = 90,
       Davies_Bouldin = 1.4, Calinski_Harabasz = 50\<rparr>,
      \<lparr>Number_of_Clusters = 4, Silhouette_Score = 0.5, Distortion = 40,
       Davies_Bouldin = 0.9, Calinski_Harabasz = 60\<rparr>,
      \<lparr>Number_of_Clusters = 6, Silhouette_Score = 0.4, Distortion = 30,
       Davies_Bouldin = 1.1, Calinski_Harabasz = 70\<rparr>]"

subsection \<open>Helper lemmas on the built-ins\<close>

lemma py_max_from_ge: "m \<le> py_max_from m xs"
proof (induction xs arbitrary: m)
  case Nil
  show ?case by simp
next
  case (Cons x xs)
  have "(if x > m then x else m) \<le> py_max_from (if x > m then x else m) xs"
    by (rule Cons.IH)
  then show ?case by (simp split: if_splits)
qed

lemma py_max_from_upper: "x \<in> set xs \<Longrightarrow> x \<le> py_max_from m xs"
proof (induction xs arbitrary: m)
  case Nil
  then show ?case by simp
next
  case (Cons y ys)
  show ?case
  proof (cases "x = y")
    case True
    have "(if y > m then y else m) \<le> py_max_from (if y > m then y else m) ys"
      by (rule py_max_from_ge)
    with True show ?thesis by (simp split: if_splits)
  next
    case False
    with Cons.prems have "x \<in> set ys" by simp
    then show ?thesis by (simp add: Cons.IH)
  qed
qed

lemma py_max_from_mem: "py_max_from m xs \<in> set (m # xs)"
  by (induction xs arbitrary: m) (auto split: if_splits)

lemma py_min_from_le: "py_min_from m xs \<le> m"
proof (induction xs arbitrary: m)
  case Nil
  show ?case by simp
next
  case (Cons x xs)
  have "py_min_from (if x < m then x else m) xs \<le> (if x < m then x else m)"
    by (rule Cons.IH)
  then show ?case by (simp split: if_splits)
qed

lemma py_min_from_lower: "x \<in> set xs \<Longrightarrow> py_min_from m xs \<le> x"
proof (induction xs arbitrary: m)
  case Nil
  then show ?case by simp
next
  case (Cons y ys)
  show ?case
  proof (cases "x = y")
    case True
    have "py_min_from (if y < m then y else m) ys \<le> (if y < m then y else m)"
      by (rule py_min_from_le)
    with True show ?thesis by (simp split: if_splits)
  next
    case False
    with Cons.prems have "x \<in> set ys" by simp
    then show ?thesis by (simp add: Cons.IH)
  qed
qed

lemma py_min_from_mem: "py_min_from m xs \<in> set (m # xs)"
  by (induction xs arbitrary: m) (auto split: if_splits)

lemma py_index_mem:
  "v \<in> set xs \<Longrightarrow>
   \<exists>i. py_index xs v = Inr i \<and> i < length xs \<and> xs ! i = v \<and> (\<forall>j<i. xs ! j \<noteq> v)"
proof (induction xs)
  case Nil
  then show ?case by simp
next
  case (Cons x xs)
  show ?case
  proof (cases "x = v")
    case True
    then show ?thesis by simp
  next
    case False
    with Cons.prems have "v \<in> set xs" by simp
    then obtain i where i: "py_index xs v = Inr i" "i < length xs" "xs ! i = v"
      "\<forall>j<i. xs ! j \<noteq> v"
      using Cons.IH by blast
    have "\<forall>j<Suc i. (x # xs) ! j \<noteq> v"
    proof (intro allI impI)
      fix j assume "j < Suc i"
      then show "(x # xs) ! j \<noteq> v"
        using False i(4) by (cases j) auto
    qed
    with False i(1,2,3) show ?thesis by simp
  qed
qed

lemma py_max_index:
  assumes "scores \<noteq> []"
  shows "\<exists>m i. py_max scores = Inr m \<and> py_index scores m = Inr i \<and> i < length scores \<and>
           scores ! i = m \<and> (\<forall>j<length scores. scores ! j \<le> m) \<and> (\<forall>j<i. scores ! j < m)"
proof -
  from assms obtain x rest where sc: "scores = x # rest" by (cases scores) auto
  define m where "m = py_max_from x rest"
  have pm: "py_max scores = Inr m" by (simp add: py_max_def sc m_def)
  have mem: "m \<in> set scores" unfolding m_def sc by (rule py_max_from_mem)
  have upper: "y \<le> m" if "y \<in> set scores" for y
  proof (cases "y = x")
    case True
    then show ?thesis unfolding m_def by (simp add: py_max_from_ge)
  next
    case False
    with that have "y \<in> set rest" by (simp add: sc)
    then show ?thesis unfolding m_def by (rule py_max_from_upper)
  qed
  from py_index_mem [OF mem] obtain i where i: "py_index scores m = Inr i"
    "i < length scores" "scores ! i = m" "\<forall>j<i. scores ! j \<noteq> m" by blast
  have all: "\<forall>j<length scores. scores ! j \<le> m"
    using upper by simp
  have before: "\<forall>j<i. scores ! j < m"
  proof (intro allI impI)
    fix j assume j: "j < i"
    with i(2) have "scores ! j \<le> m" using all by simp
    moreover from j i(4) have "scores ! j \<noteq> m" by simp
    ultimately show "scores ! j < m" by simp
  qed
  from pm i(1,2,3) all before show ?thesis by blast
qed

lemma py_min_index:
  assumes "scores \<noteq> []"
  shows "\<exists>m i. py_min scores = Inr m \<and> py_index scores m = Inr i \<and> i < length scores \<and>
           scores ! i = m \<and> (\<forall>j<length scores. m \<le> scores ! j) \<and> (\<forall>j<i. m < scores ! j)"
proof -
  from assms obtain x rest where sc: "scores = x # rest" by (cases scores) auto
  define m where "m = py_min_from x rest"
  have pm: "py_min scores = Inr m" by (simp add: py_min_def sc m_def)
  have mem: "m \<in> set scores" unfolding m_def sc by (rule py_min_from_mem)
  have lower: "m \<le> y" if "y \<in> set scores" for y
  proof (cases "y = x")
    case True
    then show ?thesis unfolding m_def by (simp add: py_min_from_le)
  next
    case False
    with that have "y \<in> set rest" by (simp add: sc)
    then show ?thesis unfolding m_def by (rule py_min_from_lower)
  qed
  from py_index_mem [OF mem] obtain i where i: "py_index scores m = Inr i"
    "i < length scores" "scores ! i = m" "\<forall>j<i. scores ! j \<noteq> m" by blast
  have all: "\<forall>j<length scores. m \<le> scores ! j"
    using lower by simp
  have before: "\<forall>j<i. m < scores ! j"
  proof (intro allI impI)
    fix j assume j: "j < i"
    with i(2) have "m \<le> scores ! j" using all by simp
    moreover from j i(4) have "scores ! j \<noteq> m" by simp
    ultimately show "m < scores ! j" by simp
  qed
  from pm i(1,2,3) all before show ?thesis by blast
qed

lemma optimal_k_index_max:
  assumes "scores \<noteq> []"
  shows "\<exists>i. optimal_k_index fe scores True False = Inr i \<and> i < length scores \<and>
           (\<forall>j<length scores. scores ! j \<le> scores ! i) \<and> (\<forall>j<i. scores ! j < scores ! i)"
proof -
  from py_max_index [OF assms] obtain m i where
    "py_max scores = Inr m" "py_index scores m = Inr i" "i < length scores" "scores ! i = m"
    "\<forall>j<length scores. scores ! j \<le> m" "\<forall>j<i. scores ! j < m" by blast
  then show ?thesis by (simp add: optimal_k_index_def)
qed

lemma optimal_k_index_min:
  assumes "scores \<noteq> []"
  shows "\<exists>i. optimal_k_index fe scores False False = Inr i \<and> i < length scores \<and>
           (\<forall>j<length scores. scores ! i \<le> scores ! j) \<and> (\<forall>j<i. scores ! i < scores ! j)"
proof -
  from py_min_index [OF assms] obtain m i where
    "py_min scores = Inr m" "py_index scores m = Inr i" "i < length scores" "scores ! i = m"
    "\<forall>j<length scores. m \<le> scores ! j" "\<forall>j<i. m < scores ! j" by blast
  then show ?thesis by (simp add: optimal_k_index_def)
qed

lemma optimal_k_index_empty:
  "optimal_k_index fe [] is_higher_better False = Inl ValueError"
  by (simp add: optimal_k_index_def py_max_def py_min_def)

subsection \<open>Extremum selection\<close>

text \<open>
  Claim C2. For a non-empty score sequence, line 208 with \<open>is_higher_better\<close> true yields
  the first index whose value is at least every value of the sequence, and with
  \<open>is_higher_better\<close> false the first index whose value is at most every value: the index
  returned has the property and no smaller index has it. On \<open>[3, 5, 5, 2]\<close> with
  \<open>is_higher_better\<close> true the index is 1.
\<close>

theorem extremum_first_index:
  "(scores \<noteq> [] \<longrightarrow>
      (\<exists>i. optimal_k_index fe scores True False = Inr i \<and> i < length scores \<and>
           (\<forall>j<length scores. scores ! i \<ge> scores ! j) \<and>
           (\<forall>i'<i. \<not> (\<forall>j<length scores. scores ! i' \<ge> scores ! j))) \<and>
      (\<exists>i. optimal_k_index fe scores False False = Inr i \<and> i < length scores \<and>
           (\<forall>j<length scores. scores ! i \<le> scores ! j) \<and>
           (\<forall>i'<i. \<not> (\<forall>j<length scores. scores ! i' \<le> scores ! j)))) \<and>
   optimal_k_index fe [3, 5, 5, 2] True False = Inr 1"
proof (intro conjI impI)
  assume ne: "scores \<noteq> []"
  from optimal_k_index_max [OF ne, of fe] obtain i where i:
    "optimal_k_index fe scores True False = Inr i" "i < length scores"
    "\<forall>j<length scores. scores ! j \<le> scores ! i" "\<forall>j<i. scores ! j < scores ! i" by blast
  have "\<not> (\<forall>j<length scores. scores ! i' \<ge> scores ! j)" if "i' < i" for i'
  proof
    assume "\<forall>j<length scores. scores ! i' \<ge> scores ! j"
    with i(2) have "scores ! i \<le> scores ! i'" by simp
    moreover from that i(4) have "scores ! i' < scores ! i" by simp
    ultimately show False by simp
  qed
  with i(1,2,3) show "\<exists>i. optimal_k_index fe scores True False = Inr i \<and> i < length scores \<and>
           (\<forall>j<length scores. scores ! i \<ge> scores ! j) \<and>
           (\<forall>i'<i. \<not> (\<forall>j<length scores. scores ! i' \<ge> scores ! j))" by blast
next
  assume ne: "scores \<noteq> []"
  from optimal_k_index_min [OF ne, of fe] obtain i where i:
    "optimal_k_index fe scores False False = Inr i" "i < length scores"
    "\<forall>j<length scores. scores ! i \<le> scores ! j" "\<forall>j<i. scores ! i < scores ! j" by blast
  have "\<not> (\<forall>j<length scores. scores ! i' \<le> scores ! j)" if "i' < i" for i'
  proof
    assume "\<forall>j<length scores. scores ! i' \<le> scores ! j"
    with i(2) have "scores ! i' \<le> scores ! i" by simp
    moreover from that i(4) have "scores ! i < scores ! i'" by simp
    ultimately show False by simp
  qed
  with i(1,2,3) show "\<exists>i. optimal_k_index fe scores False False = Inr i \<and> i < length scores \<and>
           (\<forall>j<length scores. scores ! i \<le> scores ! j) \<and>
           (\<forall>i'<i. \<not> (\<forall>j<length scores. scores ! i' \<le> scores ! j))" by blast
next
  show "optimal_k_index fe [3, 5, 5, 2] True False = Inr 1"
    by (simp add: optimal_k_index_def py_max_def)
qed

theorem extremum_first_index_witness:
  "[4, 1, 1, 7 :: real] \<noteq> [] \<and>
   optimal_k_index (\<lambda>s. Inl InsufficientDataError) [4, 1, 1, 7] True False = Inr 3 \<and>
   optimal_k_index (\<lambda>s. Inl InsufficientDataError) [4, 1, 1, 7] False False = Inr 1 \<and>
   [4, 1, 1, 7 :: real] ! 3 \<ge> [4, 1, 1, 7] ! 0 \<and>
   [4, 1, 1, 7 :: real] ! 1 \<le> [4, 1, 1, 7] ! 2"
proof -
  have e: "optimal_k_index (\<lambda>s. Inl InsufficientDataError) [4, 1, 1, 7] True False = Inr 3"
    "optimal_k_index (\<lambda>s. Inl InsufficientDataError) [4, 1, 1, 7] False False = Inr 1"
    by (simp_all add: optimal_k_index_def py_max_def py_min_def)
  from extremum_first_index [of "[4, 1, 1, 7]" "\<lambda>s. Inl InsufficientDataError"]
  have "(\<forall>j<length [4, 1, 1, 7 :: real]. [4, 1, 1, 7 :: real] ! 3 \<ge> [4, 1, 1, 7] ! j) \<and>
        (\<forall>j<length [4, 1, 1, 7 :: real]. [4, 1, 1, 7 :: real] ! 1 \<le> [4, 1, 1, 7] ! j)"
    unfolding e by simp
  then have "[4, 1, 1, 7 :: real] ! 3 \<ge> [4, 1, 1, 7] ! 0 \<and>
             [4, 1, 1, 7 :: real] ! 1 \<le> [4 :: real, 1, 1, 7] ! 2"
    by simp
  with e show ?thesis by simp
qed

text \<open>
  Claim C4. Line 208 fails exactly on the empty sequence, where \<open>max\<close> (or \<open>min\<close>) raises
  \<open>ValueError\<close>, the error the specification calls EmptyInputError; on every non-empty
  sequence it returns an index of the sequence.
\<close>

theorem extremum_fails_iff_empty:
  "((\<exists>e. optimal_k_index fe scores is_higher_better False = Inl e) = (scores = [])) \<and>
   ((optimal_k_index fe scores is_higher_better False = Inl ValueError) = (scores = [])) \<and>
   ((\<exists>i. optimal_k_index fe scores is_higher_better False = Inr i \<and> i < length scores)
      = (scores \<noteq> []))"
proof (cases "scores = []")
  case True
  then show ?thesis by (simp add: optimal_k_index_empty)
next
  case False
  have "\<exists>i. optimal_k_index fe scores is_higher_better False = Inr i \<and> i < length scores"
  proof (cases is_higher_better)
    case True
    with optimal_k_index_max [OF False, of fe] show ?thesis by auto
  next
    case hib: False
    with optimal_k_index_min [OF \<open>scores \<noteq> []\<close>, of fe] show ?thesis by auto
  qed
  with False show ?thesis by auto
qed

theorem extremum_fails_iff_empty_witness:
  "optimal_k_index (\<lambda>s. Inl InsufficientDataError) [] True False = Inl ValueError \<and>
   (\<exists>i. optimal_k_index (\<lambda>s. Inl InsufficientDataError) [2, 9, 4] False False = Inr i \<and> i < 3)"
  using extremum_fails_iff_empty [of "\<lambda>s. Inl InsufficientDataError" "[]" True]
    extremum_fails_iff_empty [of "\<lambda>s. Inl InsufficientDataError" "[2, 9, 4]" False]
  by (simp add: numeral_3_eq_3)
subsection \<open>Elbow selection\<close>

lemma length_interior_distances: "length (interior_distances scores) = length scores - 2"
  by (simp add: interior_distances_def)

lemma interior_distances_nth:
  "j < length scores - 2 \<Longrightarrow> interior_distances scores ! j = line_distance scores (Suc j)"
  by (simp add: interior_distances_def)

lemma find_elbow_short: "length scores < 3 \<Longrightarrow> find_elbow scores = Inl InsufficientDataError"
  by (simp add: find_elbow_def)

lemma find_elbow_interior:
  assumes "3 \<le> length scores"
  shows "\<exists>i. find_elbow scores = Inr i \<and> 1 \<le> i \<and> i < length scores - 1 \<and>
           (\<forall>j. 1 \<le> j \<and> j < length scores - 1 \<longrightarrow>
                line_distance scores j \<le> line_distance scores i) \<and>
           (\<forall>j. 1 \<le> j \<and> j < i \<longrightarrow> line_distance scores j < line_distance scores i)"
proof -
  let ?ds = "interior_distances scores"
  from assms have ne: "?ds \<noteq> []"
    using length_interior_distances [of scores] by (cases ?ds) auto
  from py_max_index [OF ne] obtain m k where k:
    "py_max ?ds = Inr m" "py_index ?ds m = Inr k" "k < length ?ds" "?ds ! k = m"
    "\<forall>j<length ?ds. ?ds ! j \<le> m" "\<forall>j<k. ?ds ! j < m" by blast
  from k(3) have k_lt: "k < length scores - 2" by (simp add: length_interior_distances)
  have m: "m = line_distance scores (Suc k)"
    using k(4) interior_distances_nth [OF k_lt] by simp
  have res: "find_elbow scores = Inr (Suc k)"
    using assms k(1,2) by (simp add: find_elbow_def)
  have all: "line_distance scores j \<le> line_distance scores (Suc k)"
    if "1 \<le> j \<and> j < length scores - 1" for j
  proof -
    from that obtain j' where j': "j = Suc j'" by (cases j) auto
    with that have lt: "j' < length scores - 2" by simp
    then have "?ds ! j' \<le> m" using k(5) by (simp add: length_interior_distances)
    then show ?thesis using interior_distances_nth [OF lt] j' m by simp
  qed
  have first: "line_distance scores j < line_distance scores (Suc k)"
    if "1 \<le> j \<and> j < Suc k" for j
  proof -
    from that obtain j' where j': "j = Suc j'" by (cases j) auto
    with that have lt: "j' < k" by simp
    then have "?ds ! j' < m" using k(6) by simp
    moreover from lt k_lt have "j' < length scores - 2" by simp
    ultimately show ?thesis using interior_distances_nth [of j' scores] j' m by simp
  qed
  from k_lt have "Suc k < length scores - 1" by simp
  with res all first show ?thesis by auto
qed

lemma interior_distances_example:
  "interior_distances [10, 9, 8, 2, 1] = [5 / sqrt 97, 10 / sqrt 97, 5 / sqrt 97]"
  by (simp add: interior_distances_def line_distance_def perpendicular_distance_def
      point_def upt_rec)

lemma perpendicular_distance_foot:
  fixes p a b :: "real \<times> real"
  assumes "a \<noteq> b"
  shows "(fst p - fst (foot p a b)) * (fst b - fst a)
           + (snd p - snd (foot p a b)) * (snd b - snd a) = 0 \<and>
         perpendicular_distance p a b
           = sqrt ((fst p - fst (foot p a b))\<^sup>2 + (snd p - snd (foot p a b))\<^sup>2)"
proof -
  define dx where "dx = fst b - fst a"
  define dy where "dy = snd b - snd a"
  define ux where "ux = fst p - fst a"
  define uy where "uy = snd p - snd a"
  note d = dx_def dy_def ux_def uy_def
  define D where "D = dx\<^sup>2 + dy\<^sup>2"
  define t where "t = (ux * dx + uy * dy) / D"
  from assms have "dx \<noteq> 0 \<or> dy \<noteq> 0"
    by (auto simp: d prod_eq_iff)
  then have D: "D > 0" unfolding D_def by (auto simp: sum_power2_gt_zero_iff)
  have ft: "foot p a b = (fst a + t * dx, snd a + t * dy)"
    by (simp add: foot_def Let_def t_def D_def d)
  have rx: "fst p - fst (foot p a b) = ux - t * dx"
    and ry: "snd p - snd (foot p a b) = uy - t * dy"
    by (simp_all add: ft d)
  have tD: "t * D = ux * dx + uy * dy" using D by (simp add: t_def)
  have orth: "(ux - t * dx) * dx + (uy - t * dy) * dy = 0"
  proof -
    have "(ux - t * dx) * dx + (uy - t * dy) * dy = (ux * dx + uy * dy) - t * D"
      by (simp add: D_def power2_eq_square algebra_simps)
    then show ?thesis by (simp add: tD)
  qed
  have sq: "((ux - t * dx)\<^sup>2 + (uy - t * dy)\<^sup>2) * D = (ux * dy - uy * dx)\<^sup>2"
  proof -
    have "((ux - t * dx)\<^sup>2 + (uy - t * dy)\<^sup>2) * D
            = (ux\<^sup>2 + uy\<^sup>2) * D - 2 * (t * D) * (ux * dx + uy * dy) + (t * D)\<^sup>2"
      by (simp add: D_def power2_eq_square algebra_simps)
    also have "\<dots> = (ux\<^sup>2 + uy\<^sup>2) * D - (ux * dx + uy * dy)\<^sup>2"
      unfolding tD by (simp add: power2_eq_square algebra_simps)
    also have "\<dots> = (ux * dy - uy * dx)\<^sup>2"
      by (simp add: D_def power2_eq_square algebra_simps)
    finally show ?thesis .
  qed
  have cross: "(fst b - fst a) * (snd a - snd p) - (fst a - fst p) * (snd b - snd a)
                 = ux * dy - uy * dx"
    by (simp add: d algebra_simps)
  have "perpendicular_distance p a b = \<bar>ux * dy - uy * dx\<bar> / sqrt D"
    unfolding perpendicular_distance_def cross by (simp add: D_def d)
  also have "\<dots> = sqrt ((ux * dy - uy * dx)\<^sup>2 / D)"
    by (simp add: real_sqrt_divide)
  also have "(ux * dy - uy * dx)\<^sup>2 / D = (ux - t * dx)\<^sup>2 + (uy - t * dy)\<^sup>2"
    using D sq by (simp add: field_simps)
  finally have "perpendicular_distance p a b = sqrt ((ux - t * dx)\<^sup>2 + (uy - t * dy)\<^sup>2)" .
  with orth show ?thesis by (simp add: rx ry d)
qed

lemma line_distance_foot:
  assumes "2 \<le> length scores"
  shows "line_distance scores j =
           sqrt ((fst (point scores j)
                    - fst (foot (point scores j) (point scores 0)
                             (point scores (length scores - 1))))\<^sup>2
                 + (snd (point scores j)
                    - snd (foot (point scores j) (point scores 0)
                             (point scores (length scores - 1))))\<^sup>2)"
proof -
  from assms have "point scores 0 \<noteq> point scores (length scores - 1)"
    by (simp add: point_def)
  from perpendicular_distance_foot [OF this, of "point scores j"]
  show ?thesis by (simp add: line_distance_def)
qed

text \<open>
  Claim C3. On a sequence of at least three values, \<open>find_elbow\<close> (as the specification
  describes it) returns an interior index whose distance from the line through the first and
  the last point is at least that of every interior point and strictly greater than that of
  every earlier interior point; the distance of a point is its distance from the foot of its
  perpendicular on that line. On \<open>[10, 9, 8, 2, 1]\<close> it returns index 2.
\<close>

theorem find_elbow_first_max_distance:
  "(3 \<le> length scores \<longrightarrow>
      (\<exists>i. find_elbow scores = Inr i \<and> 1 \<le> i \<and> i < length scores - 1 \<and>
           (\<forall>j. 1 \<le> j \<and> j < length scores - 1 \<longrightarrow>
                line_distance scores j \<le> line_distance scores i) \<and>
           (\<forall>j. 1 \<le> j \<and> j < i \<longrightarrow> line_distance scores j < line_distance scores i)) \<and>
      (\<forall>j. line_distance scores j =
           sqrt ((fst (point scores j)
                    - fst (foot (point scores j) (point scores 0)
                             (point scores (length scores - 1))))\<^sup>2
                 + (snd (point scores j)
                    - snd (foot (point scores j) (point scores 0)
                             (point scores (length scores - 1))))\<^sup>2))) \<and>
   find_elbow [10, 9, 8, 2, 1] = Inr 2"
  (is "(?L \<longrightarrow> ?R \<and> ?F) \<and> ?E")
proof (intro conjI impI)
  assume "3 \<le> length scores"
  then show ?R by (rule find_elbow_interior)
next
  assume "3 \<le> length scores"
  then have "2 \<le> length scores" by simp
  then show ?F using line_distance_foot by blast
next
  show ?E
    by (simp add: find_elbow_def interior_distances_example py_max_def divide_less_cancel)
qed

theorem find_elbow_first_max_distance_witness:
  "3 \<le> length [10, 3, 2, 1 :: real] \<and> find_elbow [10, 3, 2, 1] = Inr 1 \<and>
   line_distance [10, 3, 2, 1] 2 \<le> line_distance [10, 3, 2, 1] 1"
proof -
  have len: "3 \<le> length [10, 3, 2, 1 :: real]" by simp
  have ds: "interior_distances [10, 3, 2, 1] = [12 / sqrt 90, 6 / sqrt 90]"
    by (simp add: interior_distances_def line_distance_def perpendicular_distance_def
        point_def upt_rec)
  have r: "find_elbow [10, 3, 2, 1] = Inr 1"
    by (simp add: find_elbow_def ds py_max_def divide_less_cancel)
  from find_elbow_first_max_distance [of "[10, 3, 2, 1]"] len r
  have "\<forall>j. 1 \<le> j \<and> j < length [10, 3, 2, 1 :: real] - 1 \<longrightarrow>
          line_distance [10, 3, 2, 1] j \<le> line_distance [10, 3, 2, 1] 1"
    by auto
  then have "line_distance [10, 3, 2, 1] 2 \<le> line_distance [10, 3, 2, 1] 1"
    by simp
  with len r show ?thesis by simp
qed

text \<open>
  Claim C5. \<open>find_elbow\<close> (as the specification describes it) fails exactly when fewer than
  three points are supplied, and then with \<open>InsufficientDataError\<close>; on three or more
  points it returns an interior index.
\<close>

theorem find_elbow_fails_iff_short:
  "((\<exists>e. find_elbow scores = Inl e) = (length scores < 3)) \<and>
   ((find_elbow scores = Inl InsufficientDataError) = (length scores < 3)) \<and>
   ((\<exists>i. find_elbow scores = Inr i \<and> 1 \<le> i \<and> i < length scores - 1) = (3 \<le> length scores))"
proof (cases "length scores < 3")
  case True
  then show ?thesis by (simp add: find_elbow_short)
next
  case False
  then have "3 \<le> length scores" by simp
  from find_elbow_interior [OF this]
  obtain i where "find_elbow scores = Inr i" "1 \<le> i" "i < length scores - 1" by blast
  with False show ?thesis by auto
qed

theorem find_elbow_fails_iff_short_witness:
  "find_elbow [7, 4] = Inl InsufficientDataError \<and>
   (\<exists>i. find_elbow [7, 4, 2] = Inr i \<and> 1 \<le> i \<and> i < length [7, 4, 2 :: real] - 1)"
  using find_elbow_fails_iff_short [of "[7, 4]"] find_elbow_fails_iff_short [of "[7, 4, 2]"]
  by simp

subsection \<open>Marker styling\<close>

lemma length_plot_map_colors: "length plot_map_colors = 10"
  by (simp add: plot_map_colors_def)

lemma length_plot_map_icons: "length plot_map_icons = 10"
  by (simp add: plot_map_icons_def)

lemma distinct_plot_map_colors: "distinct plot_map_colors"
  by (simp add: plot_map_colors_def)

lemma distinct_plot_map_icons: "distinct plot_map_icons"
  by (simp add: plot_map_icons_def)

lemma plot_map_color_eq:
  "plot_map_color cluster = Inr (plot_map_colors ! nat (cluster mod 10))"
  by (simp add: plot_map_color_def getitem_def length_plot_map_colors)

lemma plot_map_icon_type_eq:
  "plot_map_icon_type cluster = Inr (plot_map_icons ! nat (cluster div 10 mod 10))"
  by (simp add: plot_map_icon_type_def getitem_def length_plot_map_colors
      length_plot_map_icons)

lemma two_digits_eq:
  assumes "0 \<le> (c1::int)" "c1 \<le> 99" "0 \<le> c2" "c2 \<le> 99"
    and m: "c1 mod 10 = c2 mod 10" and d: "c1 div 10 mod 10 = c2 div 10 mod 10"
  shows "c1 = c2"
proof -
  have small: "c div 10 mod 10 = c div 10" if "0 \<le> c" "c \<le> 99" for c :: int
  proof -
    from that have "c div 10 \<le> 99 div 10" by (intro zdiv_mono1) simp_all
    moreover from that have "0 \<le> c div 10" by simp
    ultimately show ?thesis by simp
  qed
  from d assms(1-4) have "c1 div 10 = c2 div 10" by (simp add: small)
  with m show ?thesis by (metis div_mult_mod_eq)
qed

lemma shift_100_mod: "((cluster::int) + 100) mod 10 = cluster mod 10"
  using mod_mult_self2 [of cluster 10 10] by simp

lemma shift_100_div: "((cluster::int) + 100) div 10 mod 10 = cluster div 10 mod 10"
proof -
  have "(cluster + 100) div 10 = cluster div 10 + 10" by simp
  then show ?thesis by simp
qed

lemma marker_style_inj:
  assumes c1: "0 \<le> c1" "c1 \<le> 99" and c2: "0 \<le> c2" "c2 \<le> 99"
    and eq: "(plot_map_color c1, plot_map_icon_type c1) = (plot_map_color c2, plot_map_icon_type c2)"
  shows "c1 = c2"
proof -
  from eq have col: "plot_map_colors ! nat (c1 mod 10) = plot_map_colors ! nat (c2 mod 10)"
    and ico: "plot_map_icons ! nat (c1 div 10 mod 10) = plot_map_icons ! nat (c2 div 10 mod 10)"
    by (simp_all add: plot_map_color_eq plot_map_icon_type_eq)
  have "nat (c1 mod 10) = nat (c2 mod 10)"
    using col distinct_plot_map_colors
    by (simp add: nth_eq_iff_index_eq length_plot_map_colors)
  then have m: "c1 mod 10 = c2 mod 10" by (simp add: eq_nat_nat_iff)
  have "nat (c1 div 10 mod 10) = nat (c2 div 10 mod 10)"
    using ico distinct_plot_map_icons
    by (simp add: nth_eq_iff_index_eq length_plot_map_icons)
  then have d: "c1 div 10 mod 10 = c2 div 10 mod 10" by (simp add: eq_nat_nat_iff)
  from c1 c2 m d show ?thesis by (rule two_digits_eq)
qed

text \<open>
  Claim C9. In \<open>plot_map\<close>, for a non-negative cluster label the marker colour is
  \<open>colors[cluster % 10]\<close> and the icon is \<open>icons[(cluster // 10) % 10]\<close>, both lists
  having ten entries; two different labels between 0 and 99 get different (colour, icon)
  pairs, and a label and the label 100 above it get the same pair.
\<close>

theorem plot_map_style:
  "length plot_map_colors = 10 \<and> length plot_map_icons = 10 \<and>
   (0 \<le> cluster \<longrightarrow>
      plot_map_color cluster = Inr (plot_map_colors ! nat (cluster mod 10)) \<and>
      plot_map_icon_type cluster = Inr (plot_map_icons ! nat (cluster div 10 mod 10))) \<and>
   (0 \<le> c1 \<and> c1 \<le> 99 \<and> 0 \<le> c2 \<and> c2 \<le> 99 \<and> c1 \<noteq> c2 \<longrightarrow>
      (plot_map_color c1, plot_map_icon_type c1) \<noteq> (plot_map_color c2, plot_map_icon_type c2)) \<and>
   (0 \<le> cluster \<longrightarrow>
      (plot_map_color (cluster + 100), plot_map_icon_type (cluster + 100))
        = (plot_map_color cluster, plot_map_icon_type cluster))"
proof (intro conjI impI)
  show "length plot_map_colors = 10" by (rule length_plot_map_colors)
  show "length plot_map_icons = 10" by (rule length_plot_map_icons)
  show "plot_map_color cluster = Inr (plot_map_colors ! nat (cluster mod 10))"
    by (rule plot_map_color_eq)
  show "plot_map_icon_type cluster = Inr (plot_map_icons ! nat (cluster div 10 mod 10))"
    by (rule plot_map_icon_type_eq)
  show "(plot_map_color c1, plot_map_icon_type c1) \<noteq> (plot_map_color c2, plot_map_icon_type c2)"
    if "0 \<le> c1 \<and> c1 \<le> 99 \<and> 0 \<le> c2 \<and> c2 \<le> 99 \<and> c1 \<noteq> c2"
    using that marker_style_inj [of c1 c2] by blast
  show "(plot_map_color (cluster + 100), plot_map_icon_type (cluster + 100))
        = (plot_map_color cluster, plot_map_icon_type cluster)"
    by (simp add: plot_map_color_eq plot_map_icon_type_eq shift_100_mod shift_100_div)
qed

theorem plot_map_style_witness:
  "plot_map_color 37 = Inr ''beige'' \<and> plot_map_icon_type 37 = Inr ''heart'' \<and>
   (plot_map_color 37, plot_map_icon_type 37) \<noteq> (plot_map_color 73, plot_map_icon_type 73) \<and>
   (plot_map_color 137, plot_map_icon_type 137) = (plot_map_color 37, plot_map_icon_type 37)"
  using plot_map_style [of 37 37 73]
  by (simp add: plot_map_color_eq plot_map_icon_type_eq plot_map_colors_def plot_map_icons_def)

lemma length_gradient_colors: "length gradient_colors = 18"
  by (simp add: gradient_colors_def)

lemma base_color_eq: "base_color cluster = Inr (gradient_colors ! nat (cluster mod 18))"
  by (simp add: base_color_def getitem_def length_gradient_colors)

text \<open>
  Claim C8. In \<open>plot_map_gradient_color\<close> the palette has 18 entries, not 19: the literals
  \<open>'lightred'\<close> and \<open>'lightgreen'\<close> form the one entry \<open>'lightredlightgreen'\<close> (at
  position 15). The base colour of a cluster is \<open>colors[cluster % 18]\<close>, and it is never
  \<open>'lightgreen'\<close>.
\<close>

theorem gradient_palette_18:
  "length gradient_colors = 18 \<and>
   gradient_colors ! 15 = ''lightredlightgreen'' \<and>
   ''lightgreen'' \<notin> set gradient_colors \<and>
   ''lightred'' \<notin> set gradient_colors \<and>
   base_color cluster = Inr (gradient_colors ! nat (cluster mod 18)) \<and>
   base_color cluster \<noteq> Inr ''lightgreen''"
proof -
  have notin: "''lightgreen'' \<notin> set gradient_colors"
    by (simp add: gradient_colors_def)
  have "nat (cluster mod 18) < length gradient_colors"
    by (simp add: length_gradient_colors)
  then have "gradient_colors ! nat (cluster mod 18) \<in> set gradient_colors"
    by (rule nth_mem)
  with notin have "gradient_colors ! nat (cluster mod 18) \<noteq> ''lightgreen''"
    by metis
  then have "base_color cluster \<noteq> Inr ''lightgreen''"
    by (simp add: base_color_eq)
  moreover have "gradient_colors ! 15 = ''lightredlightgreen''"
    by (simp add: gradient_colors_def)
  moreover have "''lightred'' \<notin> set gradient_colors"
    by (simp add: gradient_colors_def)
  ultimately show ?thesis
    using notin by (simp add: length_gradient_colors base_color_eq)
qed

theorem gradient_palette_18_witness:
  "base_color 15 = Inr ''lightredlightgreen'' \<and> base_color 33 = Inr ''lightredlightgreen'' \<and>
   base_color 16 = Inr ''black'' \<and> base_color 16 \<noteq> Inr ''lightgreen''"
  using gradient_palette_18 [of 15] gradient_palette_18 [of 33] gradient_palette_18 [of 16]
  by (simp add: gradient_colors_def)

subsection \<open>Rounding and the gradient colour\<close>

lemma expo_eq:
  assumes "2 powi e \<le> \<bar>x\<bar>" "\<bar>x\<bar> < 2 powi (e + 1)" "- 1022 \<le> e"
  shows "expo x = e"
proof -
  have pos: "0 < \<bar>x\<bar>" using assms(1) by (smt (verit) zero_less_power_int)
  have "(2::real) powr real_of_int e = 2 powi e" "(2::real) powr (real_of_int e + 1) = 2 powi (e + 1)"
    using powr_real_of_int' [of 2 e] powr_real_of_int' [of 2 "e + 1"] by simp_all
  with assms(1,2) have "\<lfloor>log 2 \<bar>x\<bar>\<rfloor> = e"
    using floor_log_eq_powr_iff [of "\<bar>x\<bar>" 2 e] pos by simp
  with assms(3) show ?thesis by (simp add: expo_def)
qed

lemma fl_eval:
  assumes "2 powi e \<le> \<bar>x\<bar>" "\<bar>x\<bar> < 2 powi (e + 1)" "- 1022 \<le> e"
  shows "fl x = of_int (rne (x / 2 powi (e - 52))) * 2 powi (e - 52)"
proof -
  have "x \<noteq> 0" using assms(1) by (smt (verit) zero_less_power_int)
  then show ?thesis by (simp add: fl_def ulp_def expo_eq [OF assms])
qed

lemma rne_error: "\<bar>of_int (rne y) - y\<bar> \<le> 1 / 2"
proof -
  have "of_int \<lfloor>y\<rfloor> \<le> y" "y < of_int \<lfloor>y\<rfloor> + 1" by linarith+
  then show ?thesis by (auto simp: rne_def Let_def)
qed

lemma rne_of_int: "rne (of_int n) = n"
  by (simp add: rne_def)

lemma rne_le_int: "y \<le> of_int N \<Longrightarrow> rne y \<le> N"
proof -
  assume le: "y \<le> of_int N"
  show ?thesis
  proof (cases "y = of_int N")
    case True
    then show ?thesis by (simp add: rne_of_int)
  next
    case False
    with le have "y < of_int N" by simp
    then have "\<lfloor>y\<rfloor> < N" by (simp add: floor_less_iff)
    then have "\<lfloor>y\<rfloor> + 1 \<le> N" by simp
    moreover have "rne y \<le> \<lfloor>y\<rfloor> + 1" by (simp add: rne_def Let_def)
    ultimately show ?thesis by linarith
  qed
qed

lemma rne_ge_int: "of_int N \<le> y \<Longrightarrow> N \<le> rne y"
proof -
  assume "of_int N \<le> y"
  then have "N \<le> \<lfloor>y\<rfloor>" by (simp add: le_floor_iff)
  moreover have "\<lfloor>y\<rfloor> \<le> rne y" by (simp add: rne_def Let_def)
  ultimately show ?thesis by linarith
qed

lemma ulp_pos: "0 < ulp x"
  by (simp add: ulp_def)

lemma fl_error: "\<bar>fl x - x\<bar> \<le> ulp x / 2"
proof (cases "x = 0")
  case True
  then show ?thesis using ulp_pos [of x] by (simp add: fl_def)
next
  case False
  have "\<bar>of_int (rne (x / ulp x)) - x / ulp x\<bar> \<le> 1 / 2" by (rule rne_error)
  then have "\<bar>of_int (rne (x / ulp x)) - x / ulp x\<bar> * ulp x \<le> 1 / 2 * ulp x"
    using ulp_pos [of x] by (intro mult_right_mono) simp_all
  moreover have "\<bar>of_int (rne (x / ulp x)) - x / ulp x\<bar> * ulp x
      = \<bar>of_int (rne (x / ulp x)) * ulp x - x\<bar>"
  proof -
    have "of_int (rne (x / ulp x)) * ulp x - x = (of_int (rne (x / ulp x)) - x / ulp x) * ulp x"
      using ulp_pos [of x] by (simp add: left_diff_distrib)
    then have "\<bar>of_int (rne (x / ulp x)) * ulp x - x\<bar>
        = \<bar>of_int (rne (x / ulp x)) - x / ulp x\<bar> * \<bar>ulp x\<bar>"
      by (simp only: abs_mult)
    then show ?thesis using ulp_pos [of x] by simp
  qed
  ultimately show ?thesis using False by (simp add: fl_def)
qed

lemma floor_log_le: "x \<noteq> 0 \<Longrightarrow> 2 powi \<lfloor>log 2 \<bar>x\<bar>\<rfloor> \<le> \<bar>x\<bar>"
proof -
  assume "x \<noteq> 0"
  then have pos: "0 < \<bar>x\<bar>" by simp
  have "(2::real) powr real_of_int \<lfloor>log 2 \<bar>x\<bar>\<rfloor> \<le> \<bar>x\<bar>"
    using floor_log_eq_powr_iff [of "\<bar>x\<bar>" 2 "\<lfloor>log 2 \<bar>x\<bar>\<rfloor>"] pos by simp
  then show ?thesis using powr_real_of_int' [of 2 "\<lfloor>log 2 \<bar>x\<bar>\<rfloor>"] by simp
qed

lemma ulp_le: 
  assumes "x \<noteq> 0"
  shows "ulp x \<le> \<bar>x\<bar> * 2 powi (- 52) + 2 powi (- 1074)"
proof (cases "- 1022 \<le> \<lfloor>log 2 \<bar>x\<bar>\<rfloor>")
  case True
  then have "ulp x = 2 powi (\<lfloor>log 2 \<bar>x\<bar>\<rfloor> + (- 52))" by (simp add: ulp_def expo_def)
  also have "\<dots> = 2 powi \<lfloor>log 2 \<bar>x\<bar>\<rfloor> * 2 powi (- 52)"
    by (rule power_int_add) simp
  also have "\<dots> \<le> \<bar>x\<bar> * 2 powi (- 52)"
    using floor_log_le [OF assms] by (intro mult_right_mono) simp_all
  finally show ?thesis by (smt (verit) zero_less_power_int)
next
  case False
  then have "ulp x = 2 powi (- 1074)" by (simp add: ulp_def expo_def)
  then show ?thesis by simp
qed

lemma fl_error_coarse: "\<bar>fl x - x\<bar> \<le> \<bar>x\<bar> / 1000000 + 1 / 1000000"
proof (cases "x = 0")
  case True
  then show ?thesis by (simp add: fl_def)
next
  case False
  have a: "(2::real) powi (- 52) \<le> 1 / 1000000" by simp
  have "(2::real) powi (- 1074) \<le> 2 powi (- 52)"
    by (rule power_int_increasing) simp_all
  with a have b: "(2::real) powi (- 1074) \<le> 1 / 1000000" by linarith
  have "\<bar>x\<bar> * 2 powi (- 52) \<le> \<bar>x\<bar> * (1 / 1000000)"
    using a by (intro mult_left_mono) simp_all
  with ulp_le [OF False] b have "ulp x \<le> \<bar>x\<bar> / 1000000 + 1 / 1000000" by simp
  with fl_error [of x] ulp_pos [of x] show ?thesis by linarith
qed

lemma fl_bounds_nonneg:
  assumes "0 \<le> x"
  shows "x - x / 1000000 - 1 / 1000000 \<le> fl x" and "fl x \<le> x + x / 1000000 + 1 / 1000000"
proof -
  from assms have a: "\<bar>x\<bar> = x" by simp
  have "\<bar>fl x - x\<bar> \<le> x / 1000000 + 1 / 1000000"
    using fl_error_coarse [of x] unfolding a .
  then have "fl x - x \<le> x / 1000000 + 1 / 1000000" "- (fl x - x) \<le> x / 1000000 + 1 / 1000000"
    unfolding abs_le_iff by simp_all
  then show "x - x / 1000000 - 1 / 1000000 \<le> fl x" and "fl x \<le> x + x / 1000000 + 1 / 1000000"
    by simp_all
qed

lemma fl_nonneg: "0 \<le> x \<Longrightarrow> 0 \<le> fl x"
proof -
  assume "0 \<le> x"
  then have "of_int 0 \<le> x / ulp x" using ulp_pos [of x] by simp
  then have "0 \<le> rne (x / ulp x)" by (rule rne_ge_int)
  then show ?thesis using ulp_pos [of x] by (simp add: fl_def)
qed

lemma fl_le_one: "x \<le> 1 \<Longrightarrow> fl x \<le> 1"
proof (cases "0 < x")
  case False
  assume "x \<le> 1"
  from False have "x / ulp x \<le> of_int 0" using ulp_pos [of x] by (simp add: divide_le_0_iff)
  then have "rne (x / ulp x) \<le> 0" by (rule rne_le_int)
  then have "of_int (rne (x / ulp x)) * ulp x \<le> 0"
    using ulp_pos [of x] by (simp add: mult_le_0_iff)
  then show ?thesis by (simp add: fl_def)
next
  case True
  assume le: "x \<le> 1"
  from True le have "log 2 \<bar>x\<bar> \<le> 0" by simp
  then have "\<lfloor>log 2 \<bar>x\<bar>\<rfloor> \<le> 0" by (simp add: floor_le_iff)
  then have e: "expo x \<le> 0" by (simp add: expo_def)
  define N :: int where "N = 2 ^ nat (52 - expo x)"
  have "(2::real) powi (52 - expo x) = 2 ^ nat (52 - expo x)"
    using e by (simp add: power_int_def)
  then have N: "of_int N = (2::real) powi (52 - expo x)" by (simp add: N_def)
  have inv: "1 / ulp x = of_int N"
    unfolding N ulp_def by (simp add: power_int_diff)
  have "x / ulp x \<le> 1 / ulp x"
    using le ulp_pos [of x] by (simp add: divide_right_mono)
  then have "rne (x / ulp x) \<le> N" unfolding inv by (rule rne_le_int)
  then have "of_int (rne (x / ulp x)) * ulp x \<le> of_int N * ulp x"
    using ulp_pos [of x] by (intro mult_right_mono) simp_all
  also have "of_int N * ulp x = 1"
    using inv ulp_pos [of x] by (simp add: field_simps)
  finally show ?thesis using True by (simp add: fl_def)
qed

lemma fl_exact:
  assumes "x / ulp x = of_int n"
  shows "fl x = x"
proof -
  have "of_int (rne (x / ulp x)) * ulp x = x"
    unfolding assms rne_of_int using assms ulp_pos [of x] by (simp add: field_simps)
  then show ?thesis by (simp add: fl_def)
qed

lemma fl_small_int:
  assumes "0 \<le> n" "n \<le> 255"
  shows "fl (of_int n) = of_int n"
proof (cases "n = 0")
  case True
  then show ?thesis by (simp add: fl_def)
next
  case False
  with assms have n: "1 \<le> n" by simp
  let ?x = "of_int n :: real"
  have "0 \<le> log 2 \<bar>?x\<bar>" using n by simp
  then have lo: "0 \<le> \<lfloor>log 2 \<bar>?x\<bar>\<rfloor>" by simp
  have "\<bar>?x\<bar> \<le> 2 ^ 8" using assms by simp
  then have "log 2 \<bar>?x\<bar> \<le> log 2 (2 ^ 8)" using n by (subst log_le_cancel_iff) simp_all
  also have "log 2 ((2::real) ^ 8) = 8" by (subst log_pow_cancel) simp_all
  finally have "\<lfloor>log 2 \<bar>?x\<bar>\<rfloor> \<le> 8" by (simp add: floor_le_iff)
  with lo have e: "0 \<le> expo ?x" "expo ?x \<le> 8" by (simp_all add: expo_def)
  have "(2::real) powi (52 - expo ?x) = 2 ^ nat (52 - expo ?x)"
    using e by (simp add: power_int_def)
  then have p: "(2::real) powi (52 - expo ?x) = of_int (2 ^ nat (52 - expo ?x))"
    by simp
  have inv: "1 / ulp ?x = 2 powi (52 - expo ?x)"
    unfolding ulp_def by (simp add: power_int_diff)
  have "?x / ulp ?x = ?x * (1 / ulp ?x)" by simp
  also have "\<dots> = of_int (n * 2 ^ nat (52 - expo ?x))"
    unfolding inv p by simp
  finally show ?thesis by (rule fl_exact)
qed


lemma fl_zero: "fl 0 = 0"
  by (simp add: fl_def)

lemma fl_one: "fl 1 = 1"
  using fl_small_int [of 1] by simp

lemma expo_le:
  assumes "x \<noteq> 0" "\<bar>x\<bar> < 2 powi (E + 1)" "- 1022 \<le> E"
  shows "expo x \<le> E"
proof -
  have pos: "0 < \<bar>x\<bar>" using assms(1) by simp
  have "(2::real) powr real_of_int (E + 1) = 2 powi (E + 1)"
    using powr_real_of_int' [of 2 "E + 1"] by simp
  with assms(2) have "\<bar>x\<bar> < 2 powr real_of_int (E + 1)" by simp
  then have "log 2 \<bar>x\<bar> < real_of_int (E + 1)"
    using pos by (subst log_less_iff) simp_all
  then have "\<lfloor>log 2 \<bar>x\<bar>\<rfloor> < E + 1" by (simp only: floor_less_iff)
  with assms(3) show ?thesis by (simp add: expo_def)
qed

lemma ulp_le_binade:
  assumes "x \<noteq> 0" "\<bar>x\<bar> < 2 powi (E + 1)" "- 1022 \<le> E"
  shows "ulp x \<le> 2 powi (E - 52)"
proof -
  from expo_le [OF assms] have "expo x - 52 \<le> E - 52" by simp
  then show ?thesis unfolding ulp_def by (intro power_int_increasing) simp_all
qed

lemma half_power_int: "(2::real) powi (E - 52) / 2 = 2 powi (E - 53)"
proof -
  have "(2::real) powi (E - 52) = 2 powi ((E - 53) + 1)" by simp
  also have "\<dots> = 2 powi (E - 53) * 2 powi 1" by (rule power_int_add) simp
  finally show ?thesis by simp
qed

text \<open>Below a bound \<open>2 ^ (E + 1)\<close> the rounding error is at most half the spacing there.\<close>

lemma fl_error_below:
  assumes "\<bar>y\<bar> < 2 powi (E + 1)" "- 1022 \<le> E"
  shows "\<bar>fl y - y\<bar> \<le> 2 powi (E - 53)"
proof (cases "y = 0")
  case True
  then show ?thesis by (simp add: fl_def)
next
  case False
  from ulp_le_binade [OF False assms] have "ulp y / 2 \<le> 2 powi (E - 52) / 2" by simp
  with fl_error [of y] show ?thesis unfolding half_power_int by linarith
qed

lemma rne_gt_half: "of_int M - 1 / 2 < z \<Longrightarrow> M \<le> rne z"
proof -
  assume a: "of_int M - 1 / 2 < z"
  have fl: "of_int \<lfloor>z\<rfloor> \<le> z" "z < of_int \<lfloor>z\<rfloor> + 1" by linarith+
  from a fl(2) have "real_of_int M < real_of_int \<lfloor>z\<rfloor> + 3 / 2" by linarith
  then have "real_of_int M < real_of_int (\<lfloor>z\<rfloor> + 2)" by simp
  then have "M < \<lfloor>z\<rfloor> + 2" by (simp only: of_int_less_iff)
  then have m: "M \<le> \<lfloor>z\<rfloor> + 1" by simp
  show ?thesis
  proof (cases "M \<le> \<lfloor>z\<rfloor>")
    case True
    moreover have "\<lfloor>z\<rfloor> \<le> rne z" by (simp add: rne_def Let_def)
    ultimately show ?thesis by linarith
  next
    case False
    with m have eq: "M = \<lfloor>z\<rfloor> + 1" by simp
    with a have "1 / 2 < z - of_int \<lfloor>z\<rfloor>" by simp
    then have "rne z = \<lfloor>z\<rfloor> + 1" by (simp add: rne_def Let_def)
    with eq show ?thesis by simp
  qed
qed

text \<open>Rounding does not go below an integer that the argument reaches.\<close>

lemma fl_ge_int:
  assumes "of_int n \<le> x" "\<bar>x\<bar> < 2 powi 53"
  shows "of_int n \<le> fl x"
proof (cases "x = 0")
  case True
  with assms(1) show ?thesis by (simp add: fl_def)
next
  case False
  have "expo x \<le> 52" using expo_le [OF False, of 52] assms(2) by simp
  then have p: "(2::real) powi (52 - expo x) = of_int (2 ^ nat (52 - expo x))"
    by (simp add: power_int_def)
  have inv: "1 / ulp x = 2 powi (52 - expo x)"
    unfolding ulp_def by (simp add: power_int_diff)
  have "of_int n / ulp x = of_int n * (1 / ulp x)" by simp
  also have "\<dots> = of_int (n * 2 ^ nat (52 - expo x))" unfolding inv p by simp
  finally have q: "of_int n / ulp x = of_int (n * 2 ^ nat (52 - expo x))" .
  have "of_int n / ulp x \<le> x / ulp x"
    using assms(1) ulp_pos [of x] by (simp add: divide_right_mono)
  then have "n * 2 ^ nat (52 - expo x) \<le> rne (x / ulp x)"
    unfolding q by (rule rne_ge_int)
  then have "real_of_int (n * 2 ^ nat (52 - expo x)) \<le> of_int (rne (x / ulp x))"
    by (simp only: of_int_le_iff)
  then have "of_int n / ulp x * ulp x \<le> of_int (rne (x / ulp x)) * ulp x"
    unfolding q using ulp_pos [of x] by (intro mult_right_mono) simp_all
  then show ?thesis using False ulp_pos [of x] by (simp add: fl_def)
qed

text \<open>
  An argument less than half a spacing below an integer \<open>b\<close> is rounded to \<open>b\<close> or
  above; \<open>E\<close> is the exponent of the numbers just below \<open>b\<close>.
\<close>

lemma fl_ge_near:
  assumes E: "2 powi E < real_of_int b" "real_of_int b \<le> 2 powi (E + 1)" "- 1022 \<le> E" "E \<le> 51"
    and t: "real_of_int b - 2 powi (E - 53) < t" "t < 2 powi 53"
  shows "real_of_int b \<le> fl t"
proof (cases "real_of_int b \<le> t")
  case True
  have "0 < real_of_int b" using E(1) by (smt (verit) zero_less_power_int)
  with True t(2) have "\<bar>t\<bar> < 2 powi 53" by simp
  with True show ?thesis by (rule fl_ge_int)
next
  case False
  define s :: real where "s = 2 powi (E - 52)"
  define M :: int where "M = b * 2 ^ nat (52 - E)"
  have spos: "0 < s" by (simp add: s_def)
  have p: "(2::real) powi (52 - E) = of_int (2 ^ nat (52 - E))"
    using E(4) by (simp add: power_int_def)
  have inv: "1 / s = 2 powi (52 - E)" unfolding s_def by (simp add: power_int_diff)
  have "real_of_int b / s = real_of_int b * (1 / s)" by simp
  also have "\<dots> = of_int M" unfolding inv p M_def by simp
  finally have bM: "real_of_int b / s = of_int M" .
  then have bs: "real_of_int b = of_int M * s" using spos by (simp add: field_simps)
  have "(2::real) powi E = 2 powi ((E - 52) + 52)" by simp
  also have "\<dots> = 2 powi (E - 52) * 2 powi 52" by (rule power_int_add) simp
  finally have Es: "(2::real) powi E = 2 ^ 52 * s" by (simp add: s_def)
  from E(1) have "2 ^ 52 * s < of_int M * s" unfolding Es bs .
  then have "(2::real) ^ 52 < of_int M" using spos by simp
  then have "real_of_int (2 ^ 52) < of_int M" by simp
  then have "2 ^ 52 < M" by (simp only: of_int_less_iff)
  then have "2 ^ 52 + 1 \<le> M" by simp
  then have "real_of_int (2 ^ 52 + 1) \<le> of_int M" by (simp only: of_int_le_iff)
  then have M1: "(2::real) ^ 52 + 1 \<le> of_int M" by simp
  have h: "(2::real) powi (E - 53) = s / 2" unfolding s_def half_power_int [symmetric] ..
  from M1 have "(2 ^ 52 + 1) * s \<le> of_int M * s"
    using spos by (intro mult_right_mono) simp_all
  then have "2 powi E + s \<le> real_of_int b" unfolding Es bs by (simp add: algebra_simps)
  with t(1) spos have lo: "2 powi E < t" unfolding h by linarith
  from False E(2) have hi: "t < 2 powi (E + 1)" by linarith
  have tpos: "0 < t" using lo by (smt (verit) zero_less_power_int)
  have ex: "expo t = E"
    using lo hi tpos E(3) by (intro expo_eq) simp_all
  have u: "ulp t = s" by (simp add: ulp_def ex s_def)
  have "of_int M * s - s / 2 < t" using t(1) unfolding h bs .
  then have "(of_int M - 1 / 2) * s < t" by (simp add: algebra_simps)
  then have "of_int M - 1 / 2 < t / s" using spos by (simp add: pos_less_divide_eq)
  then have "M \<le> rne (t / s)" by (rule rne_gt_half)
  then have "real_of_int M \<le> of_int (rne (t / s))" by (simp only: of_int_le_iff)
  then have "of_int M * s \<le> of_int (rne (t / s)) * s"
    using spos by (intro mult_right_mono) simp_all
  then show ?thesis using tpos unfolding bs by (simp add: fl_def u)
qed

lemma int_binade:
  assumes "1 \<le> b" "b \<le> 255"
  shows "\<exists>E. - 1 \<le> E \<and> E \<le> 7 \<and> 2 powi E < real_of_int b \<and> real_of_int b \<le> 2 powi (E + 1)"
proof -
  consider "b = 1" | "b = 2" | "3 \<le> b \<and> b \<le> 4" | "5 \<le> b \<and> b \<le> 8" | "9 \<le> b \<and> b \<le> 16"
    | "17 \<le> b \<and> b \<le> 32" | "33 \<le> b \<and> b \<le> 64" | "65 \<le> b \<and> b \<le> 128"
    | "129 \<le> b \<and> b \<le> 255"
    using assms by linarith
  then show ?thesis
  proof cases
    case 1
    then show ?thesis by (intro exI [of _ "- 1"]) simp
  next
    case 2
    then show ?thesis by (intro exI [of _ 0]) simp
  next
    case 3
    then show ?thesis by (intro exI [of _ 1]) simp
  next
    case 4
    then show ?thesis by (intro exI [of _ 2]) simp
  next
    case 5
    then show ?thesis by (intro exI [of _ 3]) simp
  next
    case 6
    then show ?thesis by (intro exI [of _ 4]) simp
  next
    case 7
    then show ?thesis by (intro exI [of _ 5]) simp
  next
    case 8
    then show ?thesis by (intro exI [of _ 6]) simp
  next
    case 9
    then show ?thesis by (intro exI [of _ 7]) simp
  qed
qed

lemma fl_lower_fine:
  assumes "0 \<le> x"
  shows "x - x / 1000000 - 1 / 2 ^ 80 \<le> fl x"
proof (cases "x = 0")
  case True
  then show ?thesis by (simp add: fl_def)
next
  case False
  have a: "(2::real) powi (- 52) \<le> 2 / 1000000" by simp
  have "(2::real) powi (- 1074) \<le> 2 powi (- 79)"
    by (rule power_int_increasing) simp_all
  then have b: "(2::real) powi (- 1074) \<le> 2 / 2 ^ 80" by simp
  have "\<bar>x\<bar> * 2 powi (- 52) \<le> \<bar>x\<bar> * (2 / 1000000)"
    using a by (intro mult_left_mono) simp_all
  with ulp_le [OF False] b assms have "ulp x \<le> 2 * (x / 1000000) + 2 / 2 ^ 80" by simp
  then have "ulp x / 2 \<le> x / 1000000 + 1 / 2 ^ 80" by simp
  with fl_error [of x] show ?thesis by linarith
qed

text \<open>
  The two rounded products of line 305 and their sum, for a factor between 0 and 1 and a
  base channel between 0 and 255.
\<close>

lemma gradient_sum_bounds:
  assumes f: "0 \<le> f" "f \<le> 1" and b: "0 \<le> b" "b \<le> 255"
  shows "0 \<le> fl (255 * fl (1 - f))" and "0 \<le> fl (of_int b * f)"
    and "of_int b - 1022 / 1000000 \<le> fl (255 * fl (1 - f)) + fl (of_int b * f)"
    and "fl (255 * fl (1 - f)) + fl (of_int b * f) \<le> 255 + 1022 / 1000000"
proof -
  define g where "g = fl (1 - f)"
  define A where "A = fl (255 * g)"
  define B where "B = fl (of_int b * f)"
  have g0: "0 \<le> g" "g \<le> 1"
    using f by (simp_all add: g_def fl_nonneg fl_le_one)
  have f1: "0 \<le> 1 - f" using f by simp
  have gb: "1 - f - (1 - f) / 1000000 - 1 / 1000000 \<le> g"
    "g \<le> 1 - f + (1 - f) / 1000000 + 1 / 1000000"
    unfolding g_def by (rule fl_bounds_nonneg [OF f1])+
  have g255: "0 \<le> 255 * g" using g0 by simp
  have A0: "0 \<le> A" using g255 by (simp add: A_def fl_nonneg)
  have Ab: "255 * g - 255 * g / 1000000 - 1 / 1000000 \<le> A"
    "A \<le> 255 * g + 255 * g / 1000000 + 1 / 1000000"
    unfolding A_def by (rule fl_bounds_nonneg [OF g255])+
  have bf0: "0 \<le> of_int b * f" using f b by simp
  have breal: "0 \<le> (of_int b :: real)" "(of_int b :: real) \<le> 255" using b by simp_all
  have "0 \<le> (255 - of_int b) * (1 - f)" using breal f by simp
  then have p1: "of_int b + 255 * f \<le> 255 + of_int b * f" by (simp add: algebra_simps)
  have "0 \<le> (255 - of_int b) * f" using breal f by simp
  then have p2: "of_int b * f \<le> 255 * f" by (simp add: algebra_simps)
  have B0: "0 \<le> B" using bf0 by (simp add: B_def fl_nonneg)
  have Bb: "of_int b * f - of_int b * f / 1000000 - 1 / 1000000 \<le> B"
    "B \<le> of_int b * f + of_int b * f / 1000000 + 1 / 1000000"
    unfolding B_def by (rule fl_bounds_nonneg [OF bf0])+
  have gl: "1 - f - 2 / 1000000 \<le> g" using gb(1) f by argo
  have gu: "g \<le> 1 - f + 2 / 1000000" using gb(2) f by argo
  have Al: "255 * g - 256 / 1000000 \<le> A" using Ab(1) g0 by argo
  have Au: "A \<le> 255 * g + 256 / 1000000" using Ab(2) g0 by argo
  have bf255: "of_int b * f \<le> 255" using p2 f by argo
  have Bl: "of_int b * f - 256 / 1000000 \<le> B" using Bb(1) bf0 bf255 by argo
  have Bu: "B \<le> of_int b * f + 256 / 1000000" using Bb(2) bf0 bf255 by argo
  have ABl: "of_int b - 1022 / 1000000 \<le> A + B"
    using gl Al Bl p1 by argo
  have ABu: "A + B \<le> 255 + 1022 / 1000000"
    using gu Au Bu p2 by argo
  from A0 show "0 \<le> fl (255 * fl (1 - f))" by (simp add: A_def g_def)
  from B0 show "0 \<le> fl (of_int b * f)" by (simp add: B_def)
  from ABl show "of_int b - 1022 / 1000000 \<le> fl (255 * fl (1 - f)) + fl (of_int b * f)"
    by (simp add: A_def B_def g_def)
  from ABu show "fl (255 * fl (1 - f)) + fl (of_int b * f) \<le> 255 + 1022 / 1000000"
    by (simp add: A_def B_def g_def)
qed

lemma gradient_channel_bounds:
  assumes f: "0 \<le> f" "f \<le> 1" and b: "0 \<le> b" "b \<le> 255"
  shows "b - 1 \<le> gradient_channel b f \<and> gradient_channel b f \<le> 255 \<and> 0 \<le> gradient_channel b f"
proof -
  define t where "t = fl (255 * fl (1 - f)) + fl (of_int b * f)"
  define S where "S = fl t"
  note sb = gradient_sum_bounds [OF f b, folded t_def]
  have t0: "0 \<le> t" using sb(1,2) by (simp add: t_def)
  have S0: "0 \<le> S" using t0 by (simp add: S_def fl_nonneg)
  have Sb: "t - t / 1000000 - 1 / 1000000 \<le> S" "S \<le> t + t / 1000000 + 1 / 1000000"
    unfolding S_def by (rule fl_bounds_nonneg [OF t0])+
  have lo: "of_int b - 1 \<le> S" using Sb(1) sb(3,4) by argo
  have hi: "S < 256" using Sb(2) sb(3,4) by argo
  have ch: "gradient_channel b f = \<lfloor>S\<rfloor>"
    using S0 by (simp add: gradient_channel_def py_int_def S_def t_def)
  from lo have "of_int (b - 1) \<le> S" by simp
  then have "b - 1 \<le> \<lfloor>S\<rfloor>" by (simp only: le_floor_iff)
  moreover from hi have "\<lfloor>S\<rfloor> < 256" by (simp add: floor_less_iff)
  moreover from S0 have "0 \<le> \<lfloor>S\<rfloor>" by simp
  ultimately show ?thesis unfolding ch by simp
qed

text \<open>For a base channel of at most 254 the channel does not fall below the base.\<close>

lemma gradient_channel_ge_base:
  assumes f: "0 \<le> f" "f \<le> 1" and b: "1 \<le> b" "b \<le> 254"
  shows "b \<le> gradient_channel b f"
proof -
  define w where "w = 1 - f"
  define g where "g = fl w"
  define A where "A = fl (255 * g)"
  define B where "B = fl (of_int b * f)"
  define t where "t = A + B"
  define S where "S = fl t"
  from b have b0: "0 \<le> b" "b \<le> 255" by simp_all
  from int_binade [of b] b obtain E where E: "- 1 \<le> E" "E \<le> 7"
    "2 powi E < real_of_int b" "real_of_int b \<le> 2 powi (E + 1)" by auto
  define h :: real where "h = 2 powi (E - 53)"
  have "(2::real) powi (- 54) \<le> 2 powi (E - 53)"
    using E(1) by (intro power_int_increasing) simp_all
  then have hlo: "1 / 2 ^ 54 \<le> h" by (simp add: h_def)
  have hpos: "0 < h" by (simp add: h_def)
  note sb = gradient_sum_bounds [OF f b0, folded w_def, folded g_def, folded A_def B_def]
  have A0: "0 \<le> A" and B0: "0 \<le> B" using sb(1,2) by simp_all
  have tu: "t \<le> 255 + 1022 / 1000000" using sb(4) by (simp add: t_def)
  have t0: "0 \<le> t" using A0 B0 by (simp add: t_def)
  have t53: "t < 2 powi 53" using tu by simp
  have w0: "0 \<le> w" "w \<le> 1" using f by (simp_all add: w_def)
  have breal: "1 \<le> real_of_int b" "real_of_int b \<le> 254" using b by simp_all
  have bf: "real_of_int b * f = real_of_int b - real_of_int b * w"
    by (simp add: w_def algebra_simps)
  have bf0: "0 \<le> real_of_int b * f" using f breal by simp
  have bfle: "real_of_int b * f \<le> real_of_int b" using f breal by (simp add: mult_left_le)
  have bw: "real_of_int b * w \<le> 254 * w" using breal w0 by (intro mult_right_mono) simp_all
  have near: "real_of_int b - h < t"
  proof (cases "real_of_int b * w < h")
    case True
    then have "real_of_int b - 2 powi (E - 53) < real_of_int b * f"
      unfolding bf h_def by simp
    moreover have "real_of_int b * f < 2 powi 53"
    proof -
      have "(254::real) < 2 powi 53" by simp
      with bfle breal show ?thesis by linarith
    qed
    ultimately have "real_of_int b \<le> B"
      unfolding B_def using E by (intro fl_ge_near [where E = E]) simp_all
    with A0 hpos show ?thesis by (simp add: t_def)
  next
    case False
    then have hw: "h \<le> real_of_int b * w" by simp
    define c :: real where "c = 1 / 2 ^ 80"
    define d :: real where "d = 1 / 2 ^ 62"
    have cd: "c \<le> d / 1000" "0 < d" by (simp_all add: c_def d_def)
    have k: "1 / 2 ^ 54 \<le> 254 * w" using hlo bw hw by linarith
    have "254 * d \<le> 1 / 2 ^ 54" by (simp add: d_def)
    with k have "254 * d \<le> 254 * w" by linarith
    then have wlo: "d \<le> w" by simp
    have gl: "w - w / 1000000 - c \<le> g"
      unfolding g_def c_def using w0(1) by (rule fl_lower_fine)
    have g0: "0 \<le> g" using w0 by (simp add: g_def fl_nonneg)
    then have g255: "0 \<le> 255 * g" by simp
    have Al: "255 * g - 255 * g / 1000000 - c \<le> A"
      unfolding A_def c_def by (rule fl_lower_fine [OF g255])
    have Aw: "254 * w < A" using gl Al wlo cd by argo
    have "0 < real_of_int b * w" using hw hpos by linarith
    then have "\<bar>real_of_int b * f\<bar> < 2 powi (E + 1)"
      using E(4) bf bf0 by linarith
    then have "\<bar>B - real_of_int b * f\<bar> \<le> 2 powi (E - 53)"
      unfolding B_def using E(1) by (intro fl_error_below) simp_all
    then have "real_of_int b * f - h \<le> B" unfolding h_def by linarith
    with Aw bw bf show ?thesis unfolding t_def by linarith
  qed
  have "real_of_int b \<le> S"
    unfolding S_def using near t53 E unfolding h_def
    by (intro fl_ge_near [where E = E]) simp_all
  then have "b \<le> \<lfloor>S\<rfloor>" by (simp only: le_floor_iff)
  moreover have "0 \<le> S" using t0 by (simp add: S_def fl_nonneg)
  then have "gradient_channel b f = \<lfloor>S\<rfloor>"
    by (simp add: gradient_channel_def py_int_def S_def t_def A_def B_def g_def w_def)
  ultimately show ?thesis by simp
qed

lemma gradient_channel_range:
  assumes f: "0 \<le> f" "f \<le> 1" and b: "0 \<le> b" "b \<le> 255"
  shows "min b 254 \<le> gradient_channel b f \<and> gradient_channel b f \<le> 255"
proof -
  note old = gradient_channel_bounds [OF f b]
  consider "b = 0" | "1 \<le> b \<and> b \<le> 254" | "b = 255" using b by linarith
  then show ?thesis
  proof cases
    case 1
    with old show ?thesis by simp
  next
    case 2
    with gradient_channel_ge_base [OF f, of b] old show ?thesis by simp
  next
    case 3
    with old show ?thesis by simp
  qed
qed

lemma gradient_channel_full:
  assumes "0 \<le> b" "b \<le> 255"
  shows "gradient_channel b 1 = b"
  by (simp add: gradient_channel_def fl_zero fl_small_int [OF assms] py_int_def)

lemma gradient_channel_255_3_7: "gradient_channel 255 (fl (3 / 7)) = 254"
proof -
  have f1: "fl (3 / 7) = 7720456504063707 / 2 ^ 54"
    by (subst fl_eval [of "- 2"]) (simp_all add: rne_def)
  have f2: "fl (1 - 7720456504063707 / 2 ^ 54) = 5146971002709138 / 2 ^ 53"
    by (subst fl_eval [of "- 1"]) (simp_all add: rne_def)
  have f3: "fl (255 * (5146971002709138 / 2 ^ 53)) = 5126865647229805 / 2 ^ 45"
    by (subst fl_eval [of 7]) (simp_all add: rne_def)
  have f4: "fl (255 * (7720456504063707 / 2 ^ 54)) = 7690298470844708 / 2 ^ 46"
    by (subst fl_eval [of 6]) (simp_all add: rne_def)
  have f5: "fl (5126865647229805 / 2 ^ 45 + 7690298470844708 / 2 ^ 46)
              = 8972014882652159 / 2 ^ 45"
    by (subst fl_eval [of 7]) (simp_all add: rne_def)
  show ?thesis
    unfolding gradient_channel_def f1 f2 of_int_numeral f3 f4 f5
    by (simp add: py_int_def)
qed

lemma gradient_channel_0_3_7: "gradient_channel 0 (fl (3 / 7)) = 145"
proof -
  have f1: "fl (3 / 7) = 7720456504063707 / 2 ^ 54"
    by (subst fl_eval [of "- 2"]) (simp_all add: rne_def)
  have f2: "fl (1 - 7720456504063707 / 2 ^ 54) = 5146971002709138 / 2 ^ 53"
    by (subst fl_eval [of "- 1"]) (simp_all add: rne_def)
  have f3: "fl (255 * (5146971002709138 / 2 ^ 53)) = 5126865647229805 / 2 ^ 45"
    by (subst fl_eval [of 7]) (simp_all add: rne_def)
  have z: "fl (of_int 0 * (7720456504063707 / 2 ^ 54)) = 0"
    by (simp add: fl_zero)
  have f5: "fl (5126865647229805 / 2 ^ 45 + 0) = 5126865647229805 / 2 ^ 45"
    by (subst fl_eval [of 7]) (simp_all add: rne_def)
  show ?thesis
    unfolding gradient_channel_def f1 f2 f3 z f5
    by (simp add: py_int_def)
qed

text \<open>
  Claim C10, as stated, fails: for the base colour red, \<open>(255, 0, 0)\<close>, with
  \<open>value = 3\<close> and \<open>max_value = 7\<close> the sum \<open>255 * (1 - factor) + 255 * factor\<close> is
  rounded to the double just below 255, and the first channel is 254, below
  \<open>min(base_i, 255) = 255\<close>.
\<close>

theorem gradient_red_3_of_7:
  "get_gradient_color (\<lambda>name. Inr (255, 0, 0)) ''red'' 3 7 = Inr (254, 145, 145) \<and>
   (254 :: int) < min 255 255"
  by (simp add: get_gradient_color_def gradient_channel_255_3_7 gradient_channel_0_3_7)

text \<open>
  Claim C10, amended. For a base colour whose channels lie between 0 and 255 and
  \<open>0 <= value <= max_value\<close>, \<open>max_value > 0\<close>, \<open>get_gradient_color\<close> returns the
  triple whose channel \<open>i\<close> is \<open>int(255 * (1 - factor) + base_i * factor)\<close> evaluated in
  double arithmetic with \<open>factor = value / max_value\<close>; each channel lies between
  \<open>min(base_i, 254)\<close> and 255, and when \<open>value\<close> equals \<open>max_value\<close> the result is
  exactly the base triple.
\<close>

theorem get_gradient_color_range:
  "getcolor color_name = Inr (r, g, b) \<and>
   0 \<le> value \<and> value \<le> max_value \<and> 0 < max_value \<and>
   0 \<le> r \<and> r \<le> 255 \<and> 0 \<le> g \<and> g \<le> 255 \<and> 0 \<le> b \<and> b \<le> 255 \<longrightarrow>
   (\<exists>cr cg cb.
      get_gradient_color getcolor color_name value max_value = Inr (cr, cg, cb) \<and>
      cr = py_int (fl (fl (255 * fl (1 - fl (value / max_value)))
                       + fl (of_int r * fl (value / max_value)))) \<and>
      cg = py_int (fl (fl (255 * fl (1 - fl (value / max_value)))
                       + fl (of_int g * fl (value / max_value)))) \<and>
      cb = py_int (fl (fl (255 * fl (1 - fl (value / max_value)))
                       + fl (of_int b * fl (value / max_value)))) \<and>
      min r 254 \<le> cr \<and> cr \<le> 255 \<and>
      min g 254 \<le> cg \<and> cg \<le> 255 \<and>
      min b 254 \<le> cb \<and> cb \<le> 255 \<and>
      (value = max_value \<longrightarrow> (cr, cg, cb) = (r, g, b)))"
proof
  assume h: "getcolor color_name = Inr (r, g, b) \<and>
   0 \<le> value \<and> value \<le> max_value \<and> 0 < max_value \<and>
   0 \<le> r \<and> r \<le> 255 \<and> 0 \<le> g \<and> g \<le> 255 \<and> 0 \<le> b \<and> b \<le> 255"
  define f where "f = fl (value / max_value)"
  from h have q: "0 \<le> value / max_value" "value / max_value \<le> 1" by simp_all
  have f01: "0 \<le> f" "f \<le> 1"
    unfolding f_def using q by (simp_all add: fl_nonneg fl_le_one)
  from h have m: "max_value \<noteq> 0" by simp
  have res: "get_gradient_color getcolor color_name value max_value
      = Inr (gradient_channel r f, gradient_channel g f, gradient_channel b f)"
    using m h by (simp add: get_gradient_color_def Let_def f_def)
  have br: "min r 254 \<le> gradient_channel r f \<and> gradient_channel r f \<le> 255"
    using h by (intro gradient_channel_range f01) simp_all
  have bg: "min g 254 \<le> gradient_channel g f \<and> gradient_channel g f \<le> 255"
    using h by (intro gradient_channel_range f01) simp_all
  have bb: "min b 254 \<le> gradient_channel b f \<and> gradient_channel b f \<le> 255"
    using h by (intro gradient_channel_range f01) simp_all
  have full: "(gradient_channel r f, gradient_channel g f, gradient_channel b f) = (r, g, b)"
    if "value = max_value"
  proof -
    from that m have "f = 1" by (simp add: f_def fl_one)
    with h show ?thesis by (simp add: gradient_channel_full)
  qed
  show "\<exists>cr cg cb.
      get_gradient_color getcolor color_name value max_value = Inr (cr, cg, cb) \<and>
      cr = py_int (fl (fl (255 * fl (1 - fl (value / max_value)))
                       + fl (of_int r * fl (value / max_value)))) \<and>
      cg = py_int (fl (fl (255 * fl (1 - fl (value / max_value)))
                       + fl (of_int g * fl (value / max_value)))) \<and>
      cb = py_int (fl (fl (255 * fl (1 - fl (value / max_value)))
                       + fl (of_int b * fl (value / max_value)))) \<and>
      min r 254 \<le> cr \<and> cr \<le> 255 \<and>
      min g 254 \<le> cg \<and> cg \<le> 255 \<and>
      min b 254 \<le> cb \<and> cb \<le> 255 \<and>
      (value = max_value \<longrightarrow> (cr, cg, cb) = (r, g, b))"
  proof (intro exI conjI)
    show "get_gradient_color getcolor color_name value max_value
      = Inr (gradient_channel r f, gradient_channel g f, gradient_channel b f)"
      by (rule res)
    show "gradient_channel r f = py_int (fl (fl (255 * fl (1 - fl (value / max_value)))
                       + fl (of_int r * fl (value / max_value))))"
      by (simp add: gradient_channel_def f_def)
    show "gradient_channel g f = py_int (fl (fl (255 * fl (1 - fl (value / max_value)))
                       + fl (of_int g * fl (value / max_value))))"
      by (simp add: gradient_channel_def f_def)
    show "gradient_channel b f = py_int (fl (fl (255 * fl (1 - fl (value / max_value)))
                       + fl (of_int b * fl (value / max_value))))"
      by (simp add: gradient_channel_def f_def)
    show "value = max_value \<longrightarrow>
      (gradient_channel r f, gradient_channel g f, gradient_channel b f) = (r, g, b)"
      using full by blast
  qed (use br bg bb in simp_all)
qed

theorem get_gradient_color_range_witness:
  "get_gradient_color (\<lambda>name. Inr (255, 128, 0)) ''orange'' 7 7 = Inr (255, 128, 0) \<and>
   (\<exists>cr cg cb. get_gradient_color (\<lambda>name. Inr (255, 128, 0)) ''orange'' 3 7 = Inr (cr, cg, cb) \<and>
      254 \<le> cr \<and> cr \<le> 255 \<and> 128 \<le> cg \<and> cg \<le> 255 \<and> 0 \<le> cb \<and> cb \<le> 255)"
proof -
  from get_gradient_color_range [of "\<lambda>name. Inr (255, 128, 0)" "''orange''" 255 128 0 7 7]
  have a: "get_gradient_color (\<lambda>name. Inr (255, 128, 0)) ''orange'' 7 7 = Inr (255, 128, 0)"
    by auto
  from get_gradient_color_range [of "\<lambda>name. Inr (255, 128, 0)" "''orange''" 255 128 0 3 7]
  have b: "\<exists>cr cg cb.
      get_gradient_color (\<lambda>name. Inr (255, 128, 0)) ''orange'' 3 7 = Inr (cr, cg, cb) \<and>
      254 \<le> cr \<and> cr \<le> 255 \<and> 128 \<le> cg \<and> cg \<le> 255 \<and> 0 \<le> cb \<and> cb \<le> 255"
    by auto
  from a b show ?thesis by (rule conjI)
qed

subsection \<open>\<open>plot_best_k\<close>\<close>

lemma length_sort_values: "length (sort_values df) = length df"
  by (simp add: sort_values_def)

lemma set_sort_values: "set (sort_values df) = set df"
  by (simp add: sort_values_def)

lemma mset_sort_values: "mset (sort_values df) = mset df"
  by (simp add: sort_values_def)

lemma sorted_sort_values: "sorted (map Number_of_Clusters (sort_values df))"
  by (simp add: sort_values_def)

lemma sort_values_sorted:
  "sorted_wrt (<) (map Number_of_Clusters df) \<Longrightarrow> sort_values df = df"
proof -
  assume "sorted_wrt (<) (map Number_of_Clusters df)"
  then have "sorted (map Number_of_Clusters df)"
    by (rule sorted_wrt_mono_rel [rotated]) simp
  then show ?thesis
    unfolding sort_values_def by (rule sort_key_id_if_sorted)
qed

text \<open>With pairwise different keys the sorted table does not depend on the order of the rows.\<close>

lemma filter_key_distinct:
  "distinct (map f xs) \<Longrightarrow> x \<in> set xs \<Longrightarrow> filter (\<lambda>y. f x = f y) xs = [x]"
proof (induction xs)
  case Nil
  then show ?case by simp
next
  case (Cons a xs)
  show ?case
  proof (cases "x = a")
    case True
    from Cons.prems(1) have "f a \<notin> f ` set xs" by simp
    then have "filter (\<lambda>y. f a = f y) xs = []"
      by (auto simp: filter_empty_conv)
    with True show ?thesis by simp
  next
    case False
    with Cons.prems have x: "x \<in> set xs" and d: "distinct (map f xs)" by simp_all
    from Cons.prems(1) have "f a \<notin> f ` set xs" by simp
    with x have "f x \<noteq> f a" by (metis imageI)
    with Cons.IH [OF d x] show ?thesis by simp
  qed
qed

lemma sort_values_permutation:
  assumes "distinct (map Number_of_Clusters df)" "mset df' = mset df"
  shows "sort_values df' = sort_values df"
proof -
  let ?k = Number_of_Clusters
  let ?ys = "sort_key ?k df"
  have m: "mset ?ys = mset df'" using assms(2) by simp
  have d': "distinct (map ?k df')"
    using assms by (metis distinct_map mset_eq_setD mset_eq_imp_distinct_iff)
  have dy: "distinct (map ?k ?ys)"
    using assms(1) by (metis distinct_map distinct_sort set_sort)
  have "sort_key ?k df' = ?ys"
  proof (rule properties_for_sort_key [OF m])
    fix x assume x: "x \<in> set ?ys"
    then have "x \<in> set df'" using m by (metis mset_eq_setD)
    then have "filter (\<lambda>y. ?k x = ?k y) df' = [x]"
      using d' by (intro filter_key_distinct)
    moreover have "filter (\<lambda>y. ?k x = ?k y) ?ys = [x]"
      using dy x by (intro filter_key_distinct)
    ultimately show "filter (\<lambda>y. ?k x = ?k y) ?ys = filter (\<lambda>y. ?k x = ?k y) df'"
      by simp
  next
    show "sorted (map ?k ?ys)" by simp
  qed
  then show ?thesis by (simp add: sort_values_def)
qed

lemma column_min_eq: "ks \<noteq> [] \<Longrightarrow> column_min ks = Some (Min (set ks))"
  by (cases ks) (simp_all add: column_min_def Min.set_eq_fold [symmetric])

lemma column_max_eq: "ks \<noteq> [] \<Longrightarrow> column_max ks = Some (Max (set ks))"
  by (cases ks) (simp_all add: column_max_def Max.set_eq_fold [symmetric])

lemma column_min_max_set:
  "set ks' = set ks \<Longrightarrow> column_min ks' = column_min ks \<and> column_max ks' = column_max ks"
proof (cases "ks = []")
  case True
  assume "set ks' = set ks"
  with True have "ks' = []" by simp
  with True show ?thesis by simp
next
  case False
  assume s: "set ks' = set ks"
  with False have "ks' \<noteq> []" by auto
  with False s show ?thesis by (simp add: column_min_eq column_max_eq)
qed

lemma ax_plot_length:
  "length scores' = length scores \<Longrightarrow> ax_plot min_x max_x scores' = ax_plot min_x max_x scores"
  by (cases min_x; cases max_x) (simp_all add: ax_plot_def)

text \<open>
  For a non-empty column of pairwise different keys, \<open>ax.plot\<close> accepts the scores exactly
  when the keys are consecutive integers.
\<close>

lemma ax_plot_consecutive:
  assumes "distinct ks" "ks \<noteq> []" "length scores = length ks"
  shows "ax_plot (column_min ks) (column_max ks) scores
           = (if \<exists>lo hi. set ks = {lo..hi} then Inr () else Inl ValueError)"
proof -
  let ?lo = "Min (set ks)" and ?hi = "Max (set ks)"
  have fin: "finite (set ks)" and ne: "set ks \<noteq> {}" using assms(2) by simp_all
  have sub: "set ks \<subseteq> {?lo..?hi}" using fin by auto
  have le: "?lo \<le> ?hi" using fin ne by simp
  have card: "card {?lo..?hi} = nat (?hi + 1 - ?lo)" by simp
  have len: "length scores = card (set ks)"
    using assms(1,3) by (simp add: distinct_card)
  have ax: "ax_plot (column_min ks) (column_max ks) scores
      = (if nat (?hi + 1 - ?lo) = length scores then Inr () else Inl ValueError)"
    using assms(2) by (simp add: ax_plot_def column_min_eq column_max_eq)
  show ?thesis
  proof (cases "\<exists>lo hi. set ks = {lo..hi}")
    case True
    then obtain lo hi where s: "set ks = {lo..hi}" by blast
    with ne have lh: "lo \<le> hi" by auto
    then have "?lo = lo" "?hi = hi" unfolding s by (auto intro!: Min_eqI Max_eqI)
    then have "nat (?hi + 1 - ?lo) = card (set ks)" unfolding s by simp
    with ax len True show ?thesis by simp
  next
    case False
    have "nat (?hi + 1 - ?lo) \<noteq> length scores"
    proof
      assume "nat (?hi + 1 - ?lo) = length scores"
      with card len have "card (set ks) = card {?lo..?hi}" by simp
      with sub have "set ks = {?lo..?hi}"
        by (intro card_subset_eq) simp_all
      with False show False by blast
    qed
    with ax False show ?thesis by simp
  qed
qed

lemma table_plot_best_k: "table (plot_best_k fe df) = sort_values df"
  by (simp add: plot_best_k_def Let_def split: sum.splits)

lemma plot_subplot_max:
  assumes "scores \<noteq> []" "length scores = length df"
  shows "\<exists>i. optimal_k_index fe scores True False = Inr i \<and> i < length df \<and>
           plot_subplot fe df mn mx scores True False
             = (case ax_plot mn mx scores of
                  Inl e \<Rightarrow> Inl e
                | Inr u \<Rightarrow> Inr (Number_of_Clusters (df ! i), scores ! i))"
proof -
  from optimal_k_index_max [OF assms(1), of fe] obtain i where
    "optimal_k_index fe scores True False = Inr i" "i < length scores" by blast
  with assms(2) show ?thesis by (simp add: plot_subplot_def getitem_def)
qed

lemma plot_subplot_min:
  assumes "scores \<noteq> []" "length scores = length df"
  shows "\<exists>i. optimal_k_index fe scores False False = Inr i \<and> i < length df \<and>
           plot_subplot fe df mn mx scores False False
             = (case ax_plot mn mx scores of
                  Inl e \<Rightarrow> Inl e
                | Inr u \<Rightarrow> Inr (Number_of_Clusters (df ! i), scores ! i))"
proof -
  from optimal_k_index_min [OF assms(1), of fe] obtain i where
    "optimal_k_index fe scores False False = Inr i" "i < length scores" by blast
  with assms(2) show ?thesis by (simp add: plot_subplot_def getitem_def)
qed

lemma plot_subplot_elbow:
  assumes "length scores = length df"
  shows "plot_subplot fe df mn mx scores False True =
           (case fe scores of
              Inl err \<Rightarrow> Inl err
            | Inr e \<Rightarrow>
                if e < length df
                then (case ax_plot mn mx scores of
                        Inl err \<Rightarrow> Inl err
                      | Inr u \<Rightarrow> Inr (Number_of_Clusters (df ! e), scores ! e))
                else Inl IndexError)"
  using assms
  by (simp add: plot_subplot_def optimal_k_index_def getitem_def split: sum.splits)

text \<open>
  The state after \<open>plot_best_k\<close> on a non-empty table, in terms of the check of
  \<open>ax.plot\<close> and of the four selections.
\<close>

lemma plot_best_k_cases:
  assumes "df \<noteq> []"
  shows "\<exists>i1 i3 i4.
           optimal_k_index fe (map Silhouette_Score (sort_values df)) True False = Inr i1 \<and>
           optimal_k_index fe (map Davies_Bouldin (sort_values df)) False False = Inr i3 \<and>
           optimal_k_index fe (map Calinski_Harabasz (sort_values df)) True False = Inr i4 \<and>
           i1 < length df \<and> i3 < length df \<and> i4 < length df \<and>
           plot_best_k fe df =
             (case ax_plot (column_min (map Number_of_Clusters df))
                     (column_max (map Number_of_Clusters df)) (map Distortion (sort_values df)) of
                Inl err \<Rightarrow> \<lparr>table = sort_values df, panels = [], outcome = Inl err\<rparr>
              | Inr u \<Rightarrow>
                 (case fe (map Distortion (sort_values df)) of
                    Inl err \<Rightarrow>
                      \<lparr>table = sort_values df,
                       panels = [(Number_of_Clusters (sort_values df ! i1),
                                  Silhouette_Score (sort_values df ! i1))],
                       outcome = Inl err\<rparr>
                  | Inr e \<Rightarrow>
                      if e < length df
                      then \<lparr>table = sort_values df,
                            panels = [(Number_of_Clusters (sort_values df ! i1),
                                       Silhouette_Score (sort_values df ! i1)),
                                      (Number_of_Clusters (sort_values df ! e),
                                       Distortion (sort_values df ! e)),
                                      (Number_of_Clusters (sort_values df ! i3),
                                       Davies_Bouldin (sort_values df ! i3)),
                                      (Number_of_Clusters (sort_values df ! i4),
                                       Calinski_Harabasz (sort_values df ! i4))],
                            outcome =
                              Inr \<lparr>silhouette = (Number_of_Clusters (sort_values df ! i1),
                                                  Silhouette_Score (sort_values df ! i1)),
                                   distortion = (Number_of_Clusters (sort_values df ! e),
                                                 Distortion (sort_values df ! e)),
                                   davies_bouldin = (Number_of_Clusters (sort_values df ! i3),
                                                     Davies_Bouldin (sort_values df ! i3)),
                                   calinski_harabasz =
                                     (Number_of_Clusters (sort_values df ! i4),
                                      Calinski_Harabasz (sort_values df ! i4))\<rparr>\<rparr>
                      else \<lparr>table = sort_values df,
                            panels = [(Number_of_Clusters (sort_values df ! i1),
                                       Silhouette_Score (sort_values df ! i1))],
                            outcome = Inl IndexError\<rparr>))"
proof -
  let ?t = "sort_values df"
  let ?mn = "column_min (map Number_of_Clusters df)"
  let ?mx = "column_max (map Number_of_Clusters df)"
  from assms have ne: "?t \<noteq> []"
    using length_sort_values [of df] by (cases ?t) auto
  have len: "length ?t = length df" by (rule length_sort_values)
  have ax: "ax_plot ?mn ?mx (map Silhouette_Score ?t) = ax_plot ?mn ?mx (map Distortion ?t)"
    "ax_plot ?mn ?mx (map Davies_Bouldin ?t) = ax_plot ?mn ?mx (map Distortion ?t)"
    "ax_plot ?mn ?mx (map Calinski_Harabasz ?t) = ax_plot ?mn ?mx (map Distortion ?t)"
    by (simp_all add: ax_plot_length)
  from plot_subplot_max [of "map Silhouette_Score ?t" ?t fe ?mn ?mx] ne obtain i1 where i1:
    "optimal_k_index fe (map Silhouette_Score ?t) True False = Inr i1" "i1 < length ?t"
    "plot_subplot fe ?t ?mn ?mx (map Silhouette_Score ?t) True False
       = (case ax_plot ?mn ?mx (map Distortion ?t) of
            Inl e \<Rightarrow> Inl e
          | Inr u \<Rightarrow> Inr (Number_of_Clusters (?t ! i1), map Silhouette_Score ?t ! i1))"
    unfolding ax by auto
  from plot_subplot_min [of "map Davies_Bouldin ?t" ?t fe ?mn ?mx] ne obtain i3 where i3:
    "optimal_k_index fe (map Davies_Bouldin ?t) False False = Inr i3" "i3 < length ?t"
    "plot_subplot fe ?t ?mn ?mx (map Davies_Bouldin ?t) False False
       = (case ax_plot ?mn ?mx (map Distortion ?t) of
            Inl e \<Rightarrow> Inl e
          | Inr u \<Rightarrow> Inr (Number_of_Clusters (?t ! i3), map Davies_Bouldin ?t ! i3))"
    unfolding ax by auto
  from plot_subplot_max [of "map Calinski_Harabasz ?t" ?t fe ?mn ?mx] ne obtain i4 where i4:
    "optimal_k_index fe (map Calinski_Harabasz ?t) True False = Inr i4" "i4 < length ?t"
    "plot_subplot fe ?t ?mn ?mx (map Calinski_Harabasz ?t) True False
       = (case ax_plot ?mn ?mx (map Distortion ?t) of
            Inl e \<Rightarrow> Inl e
          | Inr u \<Rightarrow> Inr (Number_of_Clusters (?t ! i4), map Calinski_Harabasz ?t ! i4))"
    unfolding ax by auto
  have el: "plot_subplot fe ?t ?mn ?mx (map Distortion ?t) False True =
           (case fe (map Distortion ?t) of
              Inl err \<Rightarrow> Inl err
            | Inr e \<Rightarrow>
                if e < length ?t
                then (case ax_plot ?mn ?mx (map Distortion ?t) of
                        Inl err \<Rightarrow> Inl err
                      | Inr u \<Rightarrow> Inr (Number_of_Clusters (?t ! e), map Distortion ?t ! e))
                else Inl IndexError)"
    by (rule plot_subplot_elbow) simp
  have "plot_best_k fe df =
             (case ax_plot ?mn ?mx (map Distortion ?t) of
                Inl err \<Rightarrow> \<lparr>table = ?t, panels = [], outcome = Inl err\<rparr>
              | Inr u \<Rightarrow>
                 (case fe (map Distortion ?t) of
                    Inl err \<Rightarrow>
                      \<lparr>table = ?t,
                       panels = [(Number_of_Clusters (?t ! i1), Silhouette_Score (?t ! i1))],
                       outcome = Inl err\<rparr>
                  | Inr e \<Rightarrow>
                      if e < length df
                      then \<lparr>table = ?t,
                            panels = [(Number_of_Clusters (?t ! i1), Silhouette_Score (?t ! i1)),
                                      (Number_of_Clusters (?t ! e), Distortion (?t ! e)),
                                      (Number_of_Clusters (?t ! i3), Davies_Bouldin (?t ! i3)),
                                      (Number_of_Clusters (?t ! i4), Calinski_Harabasz (?t ! i4))],
                            outcome =
                              Inr \<lparr>silhouette = (Number_of_Clusters (?t ! i1),
                                                  Silhouette_Score (?t ! i1)),
                                   distortion = (Number_of_Clusters (?t ! e),
                                                 Distortion (?t ! e)),
                                   davies_bouldin = (Number_of_Clusters (?t ! i3),
                                                     Davies_Bouldin (?t ! i3)),
                                   calinski_harabasz =
                                     (Number_of_Clusters (?t ! i4),
                                      Calinski_Harabasz (?t ! i4))\<rparr>\<rparr>
                      else \<lparr>table = ?t,
                            panels = [(Number_of_Clusters (?t ! i1), Silhouette_Score (?t ! i1))],
                            outcome = Inl IndexError\<rparr>))"
    unfolding plot_best_k_def Let_def i1(3) i3(3) i4(3) el
    using i1(2) i3(2) i4(2) len
    by (simp split: sum.splits)
  with i1(1,2) i3(1,2) i4(1,2) len show ?thesis by auto
qed


lemma sorted_k_mem:
  "i < length df \<Longrightarrow> Number_of_Clusters (sort_values df ! i) \<in> set (map Number_of_Clusters df)"
proof -
  assume "i < length df"
  then have "sort_values df ! i \<in> set (sort_values df)"
    by (simp add: length_sort_values)
  then have "sort_values df ! i \<in> set df" by (simp add: set_sort_values)
  then show ?thesis by simp
qed

text \<open>A table with pairwise different keys and any reordering of it leave the same state.\<close>

lemma plot_best_k_permutation:
  assumes "distinct (map Number_of_Clusters df)" "mset df' = mset df"
  shows "plot_best_k fe df' = plot_best_k fe df"
proof -
  have s: "sort_values df' = sort_values df"
    using assms by (rule sort_values_permutation)
  have "set df' = set df" using assms(2) by (rule mset_eq_setD)
  then have "set (map Number_of_Clusters df') = set (map Number_of_Clusters df)" by simp
  from column_min_max_set [OF this]
  show ?thesis by (simp add: plot_best_k_def Let_def s)
qed

lemma sort_values_five_row_table: "sort_values five_row_table = five_row_table"
  by (simp add: sort_values_def five_row_table_def)

lemma sort_values_unordered_table:
  "sort_values unordered_table =
     [\<lparr>Number_of_Clusters = 2, Silhouette_Score = 0.3, Distortion = 90,
       Davies_Bouldin = 1.4, Calinski_Harabasz = 50\<rparr>,
      \<lparr>Number_of_Clusters = 3, Silhouette_Score = 0.5, Distortion = 40,
       Davies_Bouldin = 0.9, Calinski_Harabasz = 60\<rparr>,
      \<lparr>Number_of_Clusters = 4, Silhouette_Score = 0.4, Distortion = 30,
       Davies_Bouldin = 1.1, Calinski_Harabasz = 70\<rparr>]"
  by (simp add: sort_values_def unordered_table_def)

lemma sort_values_gap_table: "sort_values gap_table = gap_table"
  by (simp add: sort_values_def gap_table_def)

lemma find_elbow_five: "find_elbow [100, 60, 30, 25, 22] = Inr 2"
proof -
  have "interior_distances [100, 60, 30, 25, 22]
          = [82 / sqrt 6100, 124 / sqrt 6100, 66 / sqrt 6100]"
    by (simp add: interior_distances_def line_distance_def perpendicular_distance_def
        point_def upt_rec)
  then show ?thesis
    by (simp add: find_elbow_def py_max_def divide_less_cancel)
qed



lemma plot_best_k_gap_table:
  "plot_best_k find_elbow gap_table =
     \<lparr>table = gap_table, panels = [], outcome = Inl ValueError\<rparr>"
proof -
  have mm: "column_min (map Number_of_Clusters gap_table) = Some 2"
    "column_max (map Number_of_Clusters gap_table) = Some 6"
    by (simp_all add: column_min_def column_max_def gap_table_def)
  show ?thesis
    unfolding plot_best_k_def Let_def mm sort_values_gap_table
    by (simp add: gap_table_def plot_subplot_def optimal_k_index_def
        py_max_def getitem_def ax_plot_def)
qed

text \<open>
  Claim C1, as stated, fails: the table for \<open>k\<close> = 2, 4, 6 is an evaluation table (three
  rows, \<open>k\<close> strictly increasing), but \<open>ax.plot\<close> in the first panel is given the five
  positions of \<open>range(2, 7)\<close> for three scores and raises; no pair is produced.
\<close>

theorem gap_table_raises:
  "sorted_wrt (<) (map Number_of_Clusters gap_table) \<and> 3 \<le> length gap_table \<and>
   outcome (plot_best_k find_elbow gap_table) = Inl ValueError \<and>
   panels (plot_best_k find_elbow gap_table) = []"
  by (simp add: plot_best_k_gap_table) (simp add: gap_table_def)

text \<open>
  Claim C1, amended. For a table whose \<open>k\<close> values are pairwise different and are exactly
  the integers from some \<open>lo\<close> to some \<open>hi\<close>, and on which elbow selection yields an index
  of the table, \<open>plot_best_k\<close> selects by maximum on the silhouette and the
  Calinski-Harabasz columns, by minimum on the Davies-Bouldin column and by \<open>find_elbow\<close>
  on the distortion column, and produces exactly the four pairs of the \<open>k\<close> and the score at
  the selected index; every such \<open>k\<close> is a value of the table's \<open>Number_of_Clusters\<close>
  column. With \<open>find_elbow\<close> as the specification describes it, elbow selection yields an
  index of the table for every table of at least three rows.
\<close>

theorem plot_best_k_four_pairs:
  "(distinct (map Number_of_Clusters df) \<and> set (map Number_of_Clusters df) = {lo..hi} \<and>
    df \<noteq> [] \<and> fe (map Distortion (sort_values df)) = Inr e \<and> e < length df \<longrightarrow>
    (\<exists>i1 i3 i4.
      optimal_k_index fe (map Silhouette_Score (sort_values df)) True False = Inr i1 \<and>
      optimal_k_index fe (map Distortion (sort_values df)) False True = Inr e \<and>
      optimal_k_index fe (map Davies_Bouldin (sort_values df)) False False = Inr i3 \<and>
      optimal_k_index fe (map Calinski_Harabasz (sort_values df)) True False = Inr i4 \<and>
      outcome (plot_best_k fe df) =
        Inr \<lparr>silhouette = (Number_of_Clusters (sort_values df ! i1),
                            Silhouette_Score (sort_values df ! i1)),
             distortion = (Number_of_Clusters (sort_values df ! e),
                           Distortion (sort_values df ! e)),
             davies_bouldin = (Number_of_Clusters (sort_values df ! i3),
                               Davies_Bouldin (sort_values df ! i3)),
             calinski_harabasz = (Number_of_Clusters (sort_values df ! i4),
                                  Calinski_Harabasz (sort_values df ! i4))\<rparr> \<and>
      Number_of_Clusters (sort_values df ! i1) \<in> set (map Number_of_Clusters df) \<and>
      Number_of_Clusters (sort_values df ! e) \<in> set (map Number_of_Clusters df) \<and>
      Number_of_Clusters (sort_values df ! i3) \<in> set (map Number_of_Clusters df) \<and>
      Number_of_Clusters (sort_values df ! i4) \<in> set (map Number_of_Clusters df))) \<and>
   (3 \<le> length df \<longrightarrow>
      (\<exists>e. find_elbow (map Distortion (sort_values df)) = Inr e \<and> e < length df))"
  (is "(?H \<longrightarrow> ?C) \<and> ?T")
proof (rule conjI)
  show "?H \<longrightarrow> ?C"
  proof
    assume h: ?H
    then have d: "distinct (map Number_of_Clusters df)"
      and c: "set (map Number_of_Clusters df) = {lo..hi}"
      and ne: "df \<noteq> []" and el: "fe (map Distortion (sort_values df)) = Inr e"
      and e: "e < length df" by simp_all
    have ax: "ax_plot (column_min (map Number_of_Clusters df))
        (column_max (map Number_of_Clusters df)) (map Distortion (sort_values df)) = Inr ()"
      using ax_plot_consecutive [OF d, of "map Distortion (sort_values df)"] ne c
      by (auto simp: length_sort_values)
    from plot_best_k_cases [OF ne, of fe] obtain i1 i3 i4 where sel:
      "optimal_k_index fe (map Silhouette_Score (sort_values df)) True False = Inr i1"
      "optimal_k_index fe (map Davies_Bouldin (sort_values df)) False False = Inr i3"
      "optimal_k_index fe (map Calinski_Harabasz (sort_values df)) True False = Inr i4"
      and lt: "i1 < length df" "i3 < length df" "i4 < length df"
      and out: "plot_best_k fe df =
             (case ax_plot (column_min (map Number_of_Clusters df))
                     (column_max (map Number_of_Clusters df)) (map Distortion (sort_values df)) of
                Inl err \<Rightarrow> \<lparr>table = sort_values df, panels = [], outcome = Inl err\<rparr>
              | Inr u \<Rightarrow>
                 (case fe (map Distortion (sort_values df)) of
                    Inl err \<Rightarrow>
                      \<lparr>table = sort_values df,
                       panels = [(Number_of_Clusters (sort_values df ! i1),
                                  Silhouette_Score (sort_values df ! i1))],
                       outcome = Inl err\<rparr>
                  | Inr e \<Rightarrow>
                      if e < length df
                      then \<lparr>table = sort_values df,
                            panels = [(Number_of_Clusters (sort_values df ! i1),
                                       Silhouette_Score (sort_values df ! i1)),
                                      (Number_of_Clusters (sort_values df ! e),
                                       Distortion (sort_values df ! e)),
                                      (Number_of_Clusters (sort_values df ! i3),
                                       Davies_Bouldin (sort_values df ! i3)),
                                      (Number_of_Clusters (sort_values df ! i4),
                                       Calinski_Harabasz (sort_values df ! i4))],
                            outcome =
                              Inr \<lparr>silhouette = (Number_of_Clusters (sort_values df ! i1),
                                                  Silhouette_Score (sort_values df ! i1)),
                                   distortion = (Number_of_Clusters (sort_values df ! e),
                                                 Distortion (sort_values df ! e)),
                                   davies_bouldin = (Number_of_Clusters (sort_values df ! i3),
                                                     Davies_Bouldin (sort_values df ! i3)),
                                   calinski_harabasz =
                                     (Number_of_Clusters (sort_values df ! i4),
                                      Calinski_Harabasz (sort_values df ! i4))\<rparr>\<rparr>
                      else \<lparr>table = sort_values df,
                            panels = [(Number_of_Clusters (sort_values df ! i1),
                                       Silhouette_Score (sort_values df ! i1))],
                            outcome = Inl IndexError\<rparr>))"
      by blast
    have elbow: "optimal_k_index fe (map Distortion (sort_values df)) False True = Inr e"
      using el by (simp add: optimal_k_index_def)
    have res: "outcome (plot_best_k fe df) =
        Inr \<lparr>silhouette = (Number_of_Clusters (sort_values df ! i1),
                            Silhouette_Score (sort_values df ! i1)),
             distortion = (Number_of_Clusters (sort_values df ! e),
                           Distortion (sort_values df ! e)),
             davies_bouldin = (Number_of_Clusters (sort_values df ! i3),
                               Davies_Bouldin (sort_values df ! i3)),
             calinski_harabasz = (Number_of_Clusters (sort_values df ! i4),
                                  Calinski_Harabasz (sort_values df ! i4))\<rparr>"
      unfolding out ax el using e by simp
    note mem = sorted_k_mem [OF lt(1)] sorted_k_mem [OF e] sorted_k_mem [OF lt(2)]
      sorted_k_mem [OF lt(3)]
    from sel elbow res mem show ?C by blast
  qed
  show ?T
  proof
    assume "3 \<le> length df"
    then have "3 \<le> length (map Distortion (sort_values df))"
      by (simp add: length_sort_values)
    from find_elbow_interior [OF this] obtain i where
      "find_elbow (map Distortion (sort_values df)) = Inr i" "i < length df - 1"
      by (auto simp: length_sort_values)
    then show "\<exists>e. find_elbow (map Distortion (sort_values df)) = Inr e \<and> e < length df"
      by auto
  qed
qed

theorem plot_best_k_four_pairs_witness:
  "distinct (map Number_of_Clusters five_row_table) \<and>
   set (map Number_of_Clusters five_row_table) = {2..6} \<and>
   five_row_table \<noteq> [] \<and>
   find_elbow (map Distortion (sort_values five_row_table)) = Inr 2 \<and>
   2 < length five_row_table \<and>
   outcome (plot_best_k find_elbow five_row_table) =
     Inr \<lparr>silhouette = (4, 0.55), distortion = (4, 30),
          davies_bouldin = (3, 0.8), calinski_harabasz = (5, 120)\<rparr>"
proof -
  have "{2..6 :: int} = {2, 3, 4, 5, 6}" by auto
  then have c: "set (map Number_of_Clusters five_row_table) = {2..6}"
    by (simp add: five_row_table_def)
  have h: "distinct (map Number_of_Clusters five_row_table) \<and> five_row_table \<noteq> [] \<and>
      find_elbow (map Distortion (sort_values five_row_table)) = Inr 2 \<and>
      2 < length five_row_table"
    unfolding sort_values_five_row_table
    by (simp add: five_row_table_def find_elbow_five)
  from plot_best_k_four_pairs [of five_row_table 2 6 find_elbow 2] h c obtain i1 i3 i4 where
    s1: "optimal_k_index find_elbow (map Silhouette_Score (sort_values five_row_table)) True False
           = Inr i1"
    and s3: "optimal_k_index find_elbow (map Davies_Bouldin (sort_values five_row_table)) False False
           = Inr i3"
    and s4: "optimal_k_index find_elbow (map Calinski_Harabasz (sort_values five_row_table)) True False
           = Inr i4"
    and res: "outcome (plot_best_k find_elbow five_row_table) =
        Inr \<lparr>silhouette = (Number_of_Clusters (sort_values five_row_table ! i1),
                            Silhouette_Score (sort_values five_row_table ! i1)),
             distortion = (Number_of_Clusters (sort_values five_row_table ! 2),
                           Distortion (sort_values five_row_table ! 2)),
             davies_bouldin = (Number_of_Clusters (sort_values five_row_table ! i3),
                               Davies_Bouldin (sort_values five_row_table ! i3)),
             calinski_harabasz = (Number_of_Clusters (sort_values five_row_table ! i4),
                                  Calinski_Harabasz (sort_values five_row_table ! i4))\<rparr>"
    by blast
  have i1: "i1 = 2"
    using s1 unfolding sort_values_five_row_table
    by (simp add: five_row_table_def optimal_k_index_def py_max_def)
  have i3: "i3 = 1"
    using s3 unfolding sort_values_five_row_table
    by (simp add: five_row_table_def optimal_k_index_def py_min_def)
  have i4: "i4 = 3"
    using s4 unfolding sort_values_five_row_table
    by (simp add: five_row_table_def optimal_k_index_def py_max_def)
  have "outcome (plot_best_k find_elbow five_row_table) =
     Inr \<lparr>silhouette = (4, 0.55), distortion = (4, 30),
          davies_bouldin = (3, 0.8), calinski_harabasz = (5, 120)\<rparr>"
    using res unfolding i1 i3 i4 sort_values_five_row_table
    by (simp add: five_row_table_def)
  with h c show ?thesis by simp
qed


lemma plot_best_k_two_rows:
  "plot_best_k find_elbow (take 2 five_row_table) =
     \<lparr>table = take 2 five_row_table, panels = [(3, 0.45)],
      outcome = Inl InsufficientDataError\<rparr>"
proof -
  have t: "take 2 five_row_table =
      [\<lparr>Number_of_Clusters = 2, Silhouette_Score = 0.30, Distortion = 100,
        Davies_Bouldin = 1.5, Calinski_Harabasz = 50\<rparr>,
       \<lparr>Number_of_Clusters = 3, Silhouette_Score = 0.45, Distortion = 60,
        Davies_Bouldin = 0.8, Calinski_Harabasz = 80\<rparr>]"
    by (simp add: five_row_table_def)
  show ?thesis
    unfolding t plot_best_k_def Let_def
    by (simp add: sort_values_def column_min_def column_max_def plot_subplot_def
        optimal_k_index_def py_max_def getitem_def ax_plot_def find_elbow_def)
qed




text \<open>
  Claim C7, as stated, fails: the call sorts the caller's table in place (line 195), so
  the table whose \<open>Number_of_Clusters\<close> column reads 3, 2, 4 is not the same table after
  the call.
\<close>

theorem unordered_table_reordered:
  "table (plot_best_k find_elbow unordered_table) \<noteq> unordered_table"
  unfolding table_plot_best_k sort_values_unordered_table
  by (simp add: unordered_table_def)

text \<open>
  Claim C7, amended. The call reorders the caller's table: afterwards the table holds the
  same rows, in ascending order of \<open>Number_of_Clusters\<close>, whatever the outcome. A table
  whose \<open>k\<close> values are strictly increasing is left unchanged, and a table left unchanged
  had its \<open>k\<close> values in ascending order. What the call leaves behind depends only on the
  contents of the table: for a table with pairwise different \<open>k\<close> values, every reordering
  of its rows leads to the same table, the same marked panels and the same outcome.
\<close>

theorem plot_best_k_sorts_in_place:
  "mset (table (plot_best_k fe df)) = mset df \<and>
   sorted (map Number_of_Clusters (table (plot_best_k fe df))) \<and>
   (sorted_wrt (<) (map Number_of_Clusters df) \<longrightarrow> table (plot_best_k fe df) = df) \<and>
   (table (plot_best_k fe df) = df \<longrightarrow> sorted (map Number_of_Clusters df)) \<and>
   (distinct (map Number_of_Clusters df) \<and> mset df' = mset df \<longrightarrow>
      plot_best_k fe df' = plot_best_k fe df)"
proof (intro conjI impI)
  show "mset (table (plot_best_k fe df)) = mset df"
    by (simp add: table_plot_best_k mset_sort_values)
  show "sorted (map Number_of_Clusters (table (plot_best_k fe df)))"
    by (simp add: table_plot_best_k sorted_sort_values)
  show "table (plot_best_k fe df) = df" if "sorted_wrt (<) (map Number_of_Clusters df)"
    using that by (simp add: table_plot_best_k sort_values_sorted)
  show "sorted (map Number_of_Clusters df)" if "table (plot_best_k fe df) = df"
  proof -
    from that have "sort_values df = df" by (simp add: table_plot_best_k)
    with sorted_sort_values [of df] show ?thesis by simp
  qed
  show "plot_best_k fe df' = plot_best_k fe df"
    if "distinct (map Number_of_Clusters df) \<and> mset df' = mset df"
    using that plot_best_k_permutation [of df df' fe] by blast
qed

theorem plot_best_k_sorts_in_place_witness:
  "sorted_wrt (<) (map Number_of_Clusters five_row_table) \<and>
   table (plot_best_k find_elbow five_row_table) = five_row_table \<and>
   distinct (map Number_of_Clusters unordered_table) \<and>
   mset (rev unordered_table) = mset unordered_table \<and>
   plot_best_k find_elbow (rev unordered_table) = plot_best_k find_elbow unordered_table \<and>
   sorted (map Number_of_Clusters (table (plot_best_k find_elbow unordered_table)))"
proof -
  have s: "sorted_wrt (<) (map Number_of_Clusters five_row_table)"
    by (simp add: five_row_table_def)
  have d: "distinct (map Number_of_Clusters unordered_table)"
    by (simp add: unordered_table_def)
  have r: "mset (rev unordered_table) = mset unordered_table" by simp
  from plot_best_k_sorts_in_place [of find_elbow five_row_table five_row_table] s
  have a: "table (plot_best_k find_elbow five_row_table) = five_row_table" by blast
  from plot_best_k_sorts_in_place [of find_elbow unordered_table "rev unordered_table"] d r
  have b: "plot_best_k find_elbow (rev unordered_table) = plot_best_k find_elbow unordered_table \<and>
      sorted (map Number_of_Clusters (table (plot_best_k find_elbow unordered_table)))"
    by blast
  from s a d r b show ?thesis by simp
qed

end
